theory Spec2Isabelle
  imports Main "HOL-Library.Word"
begin

section \<open>os-find: data model\<close>

text \<open>
  The program is one translation unit, \<^verbatim>\<open>main.cpp\<close>. Its global variables are the
  filter criteria, the result vector and the \<^verbatim>\<open>-exec\<close> target; the functions
  \<^verbatim>\<open>matches\<close>, \<^verbatim>\<open>visit\<close>, \<^verbatim>\<open>set_args\<close> and \<^verbatim>\<open>main\<close> read and write them and talk to the
  kernel. The embedding threads one record of the globals and of the observable
  process state (standard output, descriptor table, system calls issued) through
  every function. What the kernel answers is an input of the model.
\<close>

datatype SizeMode = NONE | LESS | EQUAL | GREATER

text \<open>
  \<^verbatim>\<open>struct linux_dirent64\<close>. The fields \<^verbatim>\<open>d_off\<close> and \<^verbatim>\<open>d_reclen\<close> only serve to step from one
  record of the \<^verbatim>\<open>getdents64\<close> buffer to the next; a decoded buffer is the list of its
  records, so they are not kept.
\<close>

record linux_dirent64 =
  d_ino :: "64 word"
  d_type :: "8 word"
  d_name :: string

text \<open>The two entry types of \<^verbatim>\<open>dirent.h\<close> the walker tests for.\<close>

definition DT_DIR :: "8 word" where
  "DT_DIR = 4"

definition DT_REG :: "8 word" where
  "DT_REG = 8"

text \<open>
  The fields of \<^verbatim>\<open>struct stat\<close> the filter reads. \<^verbatim>\<open>off_t\<close> is a signed 64-bit integer
  that is only ever compared, so it is an \<^typ>\<open>int\<close>; \<^verbatim>\<open>nlink_t\<close> and \<^verbatim>\<open>ino64_t\<close> are
  unsigned 64-bit.
\<close>

record stat =
  st_size :: int
  st_nlink :: "64 word"

text \<open>
  A system call either fails (it returns \<^verbatim>\<open>-1\<close> and sets \<^verbatim>\<open>errno\<close>) or returns a value.
\<close>

datatype 'a sysret = Failed nat | Ret 'a

text \<open>
  The file system as the walker sees it. A node is one record of a directory
  stream, with the kernel's answers to the two things the program may do with its
  name: \<^verbatim>\<open>openat(dir_fd, name, O_RDONLY)\<close> followed by \<^verbatim>\<open>fstat\<close>, and
  \<^verbatim>\<open>openat(dir_fd, name, O_RDONLY | O_DIRECTORY)\<close> followed by reads of the directory.
  An open directory is the list of answers of its successive \<^verbatim>\<open>getdents64\<close> calls:
  \<open>Failed e\<close> is a read error, \<open>Ret es\<close> a buffer holding the records \<open>es\<close>
  (\<open>Ret []\<close> is a read of zero bytes), and past the end of the list every read
  returns zero.
\<close>

datatype node =
  Node linux_dirent64 "stat sysret sysret" "node list sysret list sysret"

type_synonym dirstream = "node list sysret list"

datatype out_item = Text string | Strerror nat | Endl

datatype syscall =
    Sys_open string
  | Sys_openat nat string bool
  | Sys_fstat nat
  | Sys_getdents64 nat
  | Sys_close nat
  | Sys_execv string "string list"

text \<open>
  The global variables of \<^verbatim>\<open>main.cpp\<close> (zero-initialised at program start), followed
  by the process state: what was written to \<^verbatim>\<open>cout\<close>, the open file descriptors, and
  the system calls issued so far (the flag of \<open>Sys_openat\<close> is \<^verbatim>\<open>O_DIRECTORY\<close>).
\<close>

record state =
  inode_target :: "64 word"
  name_target :: string
  results :: "string list"
  size_mode :: SizeMode
  size_target :: int
  nlinks_target :: "64 word"
  exec_target :: string
  cout :: "out_item list"
  fds :: "nat list"
  syscalls :: "syscall list"

definition initial_state :: state where
  "initial_state = \<lparr>inode_target = 0, name_target = [], results = [], size_mode = NONE,
     size_target = 0, nlinks_target = 0, exec_target = [], cout = [],
     fds = [0, 1, 2], syscalls = []\<rparr>"

text \<open>
  A failed \<^verbatim>\<open>assert\<close> aborts the process; \<^verbatim>\<open>std::string::back\<close> on an empty string is
  undefined behaviour.
\<close>

datatype abort = AssertionFailed | UndefinedBehaviour

text \<open>A successful \<^verbatim>\<open>open\<close> returns the lowest descriptor number that is not in use.\<close>

definition lowest_fd :: "nat list \<Rightarrow> nat" where
  "lowest_fd used =
     (case find (\<lambda>n. n \<notin> set used) [0..<Suc (length used)] of
        Some n \<Rightarrow> n
      | None \<Rightarrow> Suc (length used))"

section \<open>The entry filter\<close>

definition print_error :: "nat \<Rightarrow> state \<Rightarrow> abort + state" where
  "print_error errno s =
     (if errno = 0 then Inl AssertionFailed
      else Inr (s\<lparr>cout := cout s @ [Strerror errno, Endl]\<rparr>))"

text \<open>
  \<^verbatim>\<open>matches(entry, dir_fd, dir_path)\<close>. The second argument is the kernel's answer to
  opening the entry and reading its status, consulted only where the code makes
  the calls.
\<close>

definition matches ::
  "linux_dirent64 \<Rightarrow> stat sysret sysret \<Rightarrow> nat \<Rightarrow> string \<Rightarrow> state \<Rightarrow> abort + (bool \<times> state)" where
  "matches entry file_at dir_fd dir_path s =
     (if inode_target s \<noteq> 0 \<and> d_ino entry \<noteq> inode_target s then Inr (False, s)
      else if name_target s \<noteq> [] \<and> d_name entry \<noteq> name_target s then Inr (False, s)
      else if size_mode s = NONE \<and> nlinks_target s = 0 then Inr (True, s)
      else
        let s1 = s\<lparr>syscalls := syscalls s @ [Sys_openat dir_fd (d_name entry) False]\<rparr> in
        case file_at of
          Failed errno \<Rightarrow>
            (case print_error errno
                    (s1\<lparr>cout := cout s1 @
                       [Text ''Error opening file at '', Text dir_path, Text (d_name entry), Endl]\<rparr>) of
               Inl a \<Rightarrow> Inl a
             | Inr s2 \<Rightarrow> Inr (False, s2))
        | Ret status \<Rightarrow>
            let fd = lowest_fd (fds s1);
                s2 = s1\<lparr>fds := fds s1 @ [fd], syscalls := syscalls s1 @ [Sys_fstat fd]\<rparr>
            in
            case status of
              Failed errno \<Rightarrow>
                (case print_error errno
                        (s2\<lparr>cout := cout s2 @
                           [Text ''Error reading stats of file at '', Text dir_path,
                            Text (d_name entry), Endl]\<rparr>) of
                   Inl a \<Rightarrow> Inl a
                 | Inr s3 \<Rightarrow> Inr (False, s3))
            | Ret stats \<Rightarrow>
                let links =
                      (if nlinks_target s2 \<noteq> 0 \<and> nlinks_target s2 \<noteq> st_nlink stats
                       then Inr (False, s2)
                       else Inr (True, s2))
                in
                if size_mode s2 \<noteq> NONE then
                  (case size_mode s2 of
                     LESS \<Rightarrow> if st_size stats > size_target s2 then Inr (False, s2) else links
                   | EQUAL \<Rightarrow> if st_size stats \<noteq> size_target s2 then Inr (False, s2) else links
                   | GREATER \<Rightarrow> if st_size stats < size_target s2 then Inr (False, s2) else links
                   | NONE \<Rightarrow> Inl AssertionFailed)
                else links)"

section \<open>The tree walker\<close>

text \<open>
  \<^verbatim>\<open>visit(dir_fd, path)\<close>: the outer \<^verbatim>\<open>while (true)\<close> loop is \<open>visit\<close>, one call per
  \<^verbatim>\<open>getdents64\<close>; the inner \<^verbatim>\<open>for\<close> loop over the records of a buffer is \<open>visit_buf\<close>.
\<close>

function (sequential) visit :: "nat \<Rightarrow> string \<Rightarrow> dirstream \<Rightarrow> state \<Rightarrow> abort + state"
and visit_buf :: "nat \<Rightarrow> string \<Rightarrow> node list \<Rightarrow> state \<Rightarrow> abort + state" where
  "visit dir_fd path [] s =
     Inr (s\<lparr>syscalls := syscalls s @ [Sys_getdents64 dir_fd]\<rparr>)"
| "visit dir_fd path (Failed errno # later) s =
     (let s1 = s\<lparr>syscalls := syscalls s @ [Sys_getdents64 dir_fd]\<rparr> in
      print_error errno
        (s1\<lparr>cout := cout s1 @ [Text ''Error reading contents of '', Text path, Endl]\<rparr>))"
| "visit dir_fd path (Ret [] # later) s =
     Inr (s\<lparr>syscalls := syscalls s @ [Sys_getdents64 dir_fd]\<rparr>)"
| "visit dir_fd path (Ret (e # es) # later) s =
     (case visit_buf dir_fd path (e # es)
             (s\<lparr>syscalls := syscalls s @ [Sys_getdents64 dir_fd]\<rparr>) of
        Inl a \<Rightarrow> Inl a
      | Inr s1 \<Rightarrow> visit dir_fd path later s1)"
| "visit_buf dir_fd path [] s = Inr s"
| "visit_buf dir_fd path (Node entry file_at dir_at # rest) s =
     (let name = d_name entry in
      if name = ''.'' \<or> name = ''..'' then visit_buf dir_fd path rest s
      else
        case (if d_type entry = DT_REG then matches entry file_at dir_fd path s
              else Inr (False, s)) of
          Inl a \<Rightarrow> Inl a
        | Inr (True, s1) \<Rightarrow>
            visit_buf dir_fd path rest (s1\<lparr>results := results s1 @ [path @ d_name entry]\<rparr>)
        | Inr (False, s1) \<Rightarrow>
            if d_type entry = DT_DIR then
              let s2 = s1\<lparr>syscalls := syscalls s1 @ [Sys_openat dir_fd (d_name entry) True]\<rparr> in
              case dir_at of
                Failed errno \<Rightarrow>
                  (case print_error errno
                          (s2\<lparr>cout := cout s2 @
                             [Text ''Error reading contents of '', Text path, Text name,
                              Text ''/'', Endl]\<rparr>) of
                     Inl a \<Rightarrow> Inl a
                   | Inr s3 \<Rightarrow> visit_buf dir_fd path rest s3)
              | Ret stream \<Rightarrow>
                  (let fd = lowest_fd (fds s2) in
                   case visit fd (path @ name @ ''/'') stream (s2\<lparr>fds := fds s2 @ [fd]\<rparr>) of
                     Inl a \<Rightarrow> Inl a
                   | Inr s3 \<Rightarrow>
                       visit_buf dir_fd path rest
                         (s3\<lparr>fds := removeAll fd (fds s3),
                             syscalls := syscalls s3 @ [Sys_close fd]\<rparr>))
            else visit_buf dir_fd path rest s1)"
  by pat_completeness auto

termination
  by (relation "measure (case_sum
        (\<lambda>(dir_fd, path, stream, s). size_list (size_sysret (size_list size)) stream)
        (\<lambda>(dir_fd, path, es, s). size_list size es))")
     auto

section \<open>Command-line parsing\<close>

text \<open>
  \<^verbatim>\<open>std::stoul\<close> and \<^verbatim>\<open>std::stoi\<close> with their default base 10, as the C++ standard defines
  them through \<^verbatim>\<open>strtoul\<close> and \<^verbatim>\<open>strtol\<close>: leading white space is skipped, one sign is
  accepted, the longest run of decimal digits is converted and what follows is
  ignored. No digit is \<^verbatim>\<open>std::invalid_argument\<close>, a value out of the range of the
  result type is \<^verbatim>\<open>std::out_of_range\<close>; \<^verbatim>\<open>strtoul\<close> negates a value with a minus sign
  in the unsigned type. Both exceptions derive from \<^verbatim>\<open>std::logic_error\<close>.
\<close>

datatype logic_error = invalid_argument | out_of_range

definition isspace :: "char \<Rightarrow> bool" where
  "isspace c = (of_char c \<in> {32 :: nat, 9, 10, 11, 12, 13})"

definition isdigit :: "char \<Rightarrow> bool" where
  "isdigit c = (48 \<le> (of_char c :: nat) \<and> (of_char c :: nat) \<le> 57)"

definition digits_value :: "string \<Rightarrow> nat" where
  "digits_value ds = foldl (\<lambda>acc c. 10 * acc + (of_char c - 48)) 0 ds"

definition scan_integer :: "string \<Rightarrow> bool \<times> string" where
  "scan_integer str =
     (let t = dropWhile isspace str in
      case t of
        [] \<Rightarrow> (False, [])
      | c # r \<Rightarrow>
          if c = CHR ''-'' then (True, takeWhile isdigit r)
          else if c = CHR ''+'' then (False, takeWhile isdigit r)
          else (False, takeWhile isdigit t))"

definition stoul :: "string \<Rightarrow> logic_error + 64 word" where
  "stoul str =
     (case scan_integer str of
        (negative, ds) \<Rightarrow>
          if ds = [] then Inl invalid_argument
          else if digits_value ds > 2 ^ 64 - 1 then Inl out_of_range
          else Inr (if negative then - word_of_nat (digits_value ds)
                    else word_of_nat (digits_value ds)))"

definition stoi :: "string \<Rightarrow> logic_error + int" where
  "stoi str =
     (case scan_integer str of
        (negative, ds) \<Rightarrow>
          if ds = [] then Inl invalid_argument
          else
            let v = (if negative then - int (digits_value ds) else int (digits_value ds)) in
            if v < - (2 ^ 31) \<or> v > 2 ^ 31 - 1 then Inl out_of_range else Inr v)"

definition error_multiple_specified :: "string \<Rightarrow> state \<Rightarrow> state" where
  "error_multiple_specified what s =
     s\<lparr>cout := cout s @ [Text ''Only one '', Text what, Text '' can be specified'', Endl]\<rparr>"

text \<open>
  The chain of comparisons on the option name inside the loop of \<^verbatim>\<open>set_args\<close>, for the
  option \<^verbatim>\<open>argv[i]\<close> and its value \<^verbatim>\<open>argv[i + 1]\<close>: \<open>Inl\<close> is a \<^verbatim>\<open>return -1\<close>, \<open>Inr\<close>
  falls through to \<^verbatim>\<open>i += 2\<close>.
\<close>

definition parse_option :: "string \<Rightarrow> string \<Rightarrow> state \<Rightarrow> state + state" where
  "parse_option option val s =
     (if option = ''-inum'' then
        if inode_target s \<noteq> 0 then Inl (error_multiple_specified ''inode number'' s)
        else (case stoul val of
                Inl error \<Rightarrow> Inl (s\<lparr>cout := cout s @ [Text ''Bad -inum argument'', Endl]\<rparr>)
              | Inr n \<Rightarrow> Inr (s\<lparr>inode_target := n\<rparr>))
      else if option = ''-name'' then
        if name_target s \<noteq> [] then Inl (error_multiple_specified ''file name'' s)
        else Inr (s\<lparr>name_target := val\<rparr>)
      else if option = ''-size'' then
        if size_mode s \<noteq> NONE then Inl (error_multiple_specified ''file size'' s)
        else
          let c = (case val of [] \<Rightarrow> None | c # r \<Rightarrow> Some c);
              mode_specified = (c = Some CHR ''-'' \<or> c = Some CHR ''='' \<or> c = Some CHR ''+'');
              s1 = (if c = Some CHR ''-'' then s\<lparr>size_mode := LESS\<rparr>
                    else if c = Some CHR ''='' then s\<lparr>size_mode := EQUAL\<rparr>
                    else if c = Some CHR ''+'' then s\<lparr>size_mode := GREATER\<rparr>
                    else s)
          in
          case stoi (drop (if mode_specified then 1 else 0) val) of
            Inl error \<Rightarrow> Inl (s1\<lparr>cout := cout s1 @ [Text ''Bad -size argument'', Endl]\<rparr>)
          | Inr n \<Rightarrow> Inr (s1\<lparr>size_target := n\<rparr>)
      else if option = ''-nlinks'' then
        if nlinks_target s \<noteq> 0 then Inl (error_multiple_specified ''hardlinks number'' s)
        else (case stoul val of
                Inl error \<Rightarrow> Inl (s\<lparr>cout := cout s @ [Text ''Bad -nlinks argument'', Endl]\<rparr>)
              | Inr n \<Rightarrow> Inr (s\<lparr>nlinks_target := n\<rparr>))
      else if option = ''-exec'' then
        if exec_target s \<noteq> [] then Inl (error_multiple_specified ''execution target'' s)
        else Inr (s\<lparr>exec_target := val\<rparr>)
      else Inl (s\<lparr>cout := cout s @ [Text ''Unknown option used: '', Text option, Endl]\<rparr>))"

text \<open>
  The \<^verbatim>\<open>for\<close> loop of \<^verbatim>\<open>set_args\<close> and what follows it; \<^verbatim>\<open>argc\<close> is the length of \<open>argv\<close>.
  \<^verbatim>\<open>argv[i][0]\<close> of an empty argument is the terminating zero byte.
\<close>

function set_args_loop :: "string list \<Rightarrow> nat \<Rightarrow> bool \<Rightarrow> int \<Rightarrow> state \<Rightarrow> int \<times> state" where
  "set_args_loop argv i hasDir dirPosition s =
     (if i < length argv then
        if (case argv ! i of [] \<Rightarrow> False | c # r \<Rightarrow> c = CHR ''-'') then
          if length argv < i + 2 then
            (- 1, s\<lparr>cout := cout s @
                     [Text ''Option '', Text (argv ! i), Text '' is missing its value'']\<rparr>)
          else
            (case parse_option (argv ! i) (argv ! (i + 1)) s of
               Inl s1 \<Rightarrow> (- 1, s1)
             | Inr s1 \<Rightarrow> set_args_loop argv (i + 2) hasDir dirPosition s1)
        else if hasDir then (- 1, error_multiple_specified ''directory'' s)
        else set_args_loop argv (i + 1) True (int i) s
      else if \<not> hasDir then
        (- 1, s\<lparr>cout := cout s @ [Text ''Usage: os-find [OPTIONS] DIRECTORY'', Endl]\<rparr>)
      else (dirPosition, s))"
  by pat_completeness auto

termination
  by (relation "measure (\<lambda>(argv, i, hasDir, dirPosition, s). length argv - i)") auto

declare set_args_loop.simps [simp del]

definition set_args :: "string list \<Rightarrow> state \<Rightarrow> int \<times> state" where
  "set_args argv s = set_args_loop argv 1 False 0 s"

section \<open>The program\<close>

text \<open>
  What the kernel answers to the two calls \<^verbatim>\<open>main\<close> makes itself: opening the root
  directory, and \<^verbatim>\<open>execv\<close>, which returns only when it fails.
\<close>

record kernel =
  open_root :: "string \<Rightarrow> dirstream sysret"
  execv_fails :: "string \<Rightarrow> string list \<Rightarrow> nat option"

datatype exit = Returned int | Replaced

definition main :: "kernel \<Rightarrow> string list \<Rightarrow> abort + (exit \<times> state)" where
  "main k argv =
     (case set_args argv initial_state of
        (dirPosition, s) \<Rightarrow>
          if dirPosition = - 1 then Inr (Returned 0, s)
          else
            let arg = argv ! nat dirPosition in
            if arg = [] then Inl UndefinedBehaviour
            else
              let path = (if last arg \<noteq> CHR ''/'' then arg @ ''/'' else arg);
                  s1 = s\<lparr>syscalls := syscalls s @ [Sys_open arg]\<rparr>
              in
              case open_root k arg of
                Failed errno \<Rightarrow>
                  (case print_error errno
                          (s1\<lparr>cout := cout s1 @
                             [Text ''Error reading contents of '', Text path, Endl]\<rparr>) of
                     Inl a \<Rightarrow> Inl a
                   | Inr s2 \<Rightarrow> Inr (Returned 0, s2))
              | Ret stream \<Rightarrow>
                  (let fd = lowest_fd (fds s1) in
                   case visit fd path stream (s1\<lparr>fds := fds s1 @ [fd]\<rparr>) of
                     Inl a \<Rightarrow> Inl a
                   | Inr s2 \<Rightarrow>
                       let s3 = s2\<lparr>fds := removeAll fd (fds s2),
                                   syscalls := syscalls s2 @ [Sys_close fd]\<rparr>
                       in
                       if exec_target s3 = [] then
                         Inr (Returned 0,
                              s3\<lparr>cout := cout s3 @
                                   concat (map (\<lambda>result. [Text result, Endl]) (results s3))\<rparr>)
                       else
                         let c_results = exec_target s3 # results s3;
                             s4 = s3\<lparr>syscalls := syscalls s3 @
                                        [Sys_execv (exec_target s3) c_results]\<rparr>
                         in
                         case execv_fails k (exec_target s3) c_results of
                           None \<Rightarrow> Inr (Replaced, s4)
                         | Some errno \<Rightarrow>
                             (case print_error errno
                                     (s4\<lparr>cout := cout s4 @
                                        [Text ''Error executing '', Text (exec_target s3), Endl]\<rparr>) of
                                Inl a \<Rightarrow> Inl a
                              | Inr s5 \<Rightarrow> Inr (Returned 0, s5))))"

section \<open>What the specification speaks of\<close>

text \<open>
  The FilterCriteria of the specification are five of the global variables; an unset
  field is \<open>0\<close>, the empty name, or the mode \<open>NONE\<close>.
\<close>

record FilterCriteria =
  want_inode :: "64 word"
  want_name :: string
  want_mode :: SizeMode
  want_size :: int
  want_nlinks :: "64 word"

definition criteria :: "state \<Rightarrow> FilterCriteria" where
  "criteria s = \<lparr>want_inode = inode_target s, want_name = name_target s,
     want_mode = size_mode s, want_size = size_target s, want_nlinks = nlinks_target s\<rparr>"

text \<open>
  An entry satisfies the criteria when every set field holds of it (AND semantics).
  Size and link count are read from the file status, so a criterion on either can
  only hold of an entry whose status could be fetched.
\<close>

definition satisfies :: "FilterCriteria \<Rightarrow> linux_dirent64 \<Rightarrow> stat sysret sysret \<Rightarrow> bool" where
  "satisfies c entry file_at =
     ((want_inode c = 0 \<or> d_ino entry = want_inode c) \<and>
      (want_name c = [] \<or> d_name entry = want_name c) \<and>
      (want_mode c = NONE \<and> want_nlinks c = 0 \<or>
       (case file_at of
          Ret (Ret stats) \<Rightarrow>
            (case want_mode c of
               NONE \<Rightarrow> True
             | LESS \<Rightarrow> st_size stats \<le> want_size c
             | EQUAL \<Rightarrow> st_size stats = want_size c
             | GREATER \<Rightarrow> want_size c \<le> st_size stats) \<and>
            (want_nlinks c = 0 \<or> st_nlink stats = want_nlinks c)
        | Ret (Failed errno) \<Rightarrow> False
        | Failed errno \<Rightarrow> False)))"

text \<open>
  POSIX: a system call that fails stores a nonzero error number. The predicates say
  so of every failure recorded in a file-system tree.
\<close>

definition posix_file :: "stat sysret sysret \<Rightarrow> bool" where
  "posix_file file_at =
     (case file_at of
        Failed errno \<Rightarrow> errno \<noteq> 0
      | Ret (Failed errno) \<Rightarrow> errno \<noteq> 0
      | Ret (Ret stats) \<Rightarrow> True)"

function (sequential) posix_stream :: "dirstream \<Rightarrow> bool"
and posix_buf :: "node list \<Rightarrow> bool" where
  "posix_stream [] = True"
| "posix_stream (Failed errno # later) = (errno \<noteq> 0 \<and> posix_stream later)"
| "posix_stream (Ret es # later) = (posix_buf es \<and> posix_stream later)"
| "posix_buf [] = True"
| "posix_buf (Node entry file_at dir_at # rest) =
     (posix_file file_at \<and>
      (case dir_at of Failed errno \<Rightarrow> errno \<noteq> 0 | Ret stream \<Rightarrow> posix_stream stream) \<and>
      posix_buf rest)"
  by pat_completeness auto

termination
  by (relation "measure (case_sum
        (\<lambda>stream. size_list (size_sysret (size_list size)) stream)
        (\<lambda>es. size_list size es))")
     auto

text \<open>
  The entries a walk comes across, each with the path prefix of the directory that
  holds it, in pre-order: the entries of a buffer in the order of the stream, and
  right after an entry of type directory (other than \<^verbatim>\<open>.\<close> and \<^verbatim>\<open>..\<close>) that can be
  opened, everything below it. Reading a directory ends at the first failed or
  empty read.
\<close>

function (sequential) reached :: "string \<Rightarrow> dirstream \<Rightarrow> (string \<times> node) list"
and reached_buf :: "string \<Rightarrow> node list \<Rightarrow> (string \<times> node) list" where
  "reached path [] = []"
| "reached path (Failed errno # later) = []"
| "reached path (Ret [] # later) = []"
| "reached path (Ret (e # es) # later) = reached_buf path (e # es) @ reached path later"
| "reached_buf path [] = []"
| "reached_buf path (Node entry file_at dir_at # rest) =
     (path, Node entry file_at dir_at) #
     (if d_name entry \<noteq> ''.'' \<and> d_name entry \<noteq> ''..'' \<and> d_type entry = DT_DIR
      then (case dir_at of
              Failed errno \<Rightarrow> []
            | Ret stream \<Rightarrow> reached (path @ d_name entry @ ''/'') stream)
      else []) @
     reached_buf path rest"
  by pat_completeness auto

termination
  by (relation "measure (case_sum
        (\<lambda>(path, stream). size_list (size_sysret (size_list size)) stream)
        (\<lambda>(path, es). size_list size es))")
     auto

text \<open>
  The entries of a walk that belong in the ResultSet, and the path recorded for one.
\<close>

fun selected :: "FilterCriteria \<Rightarrow> string \<times> node \<Rightarrow> bool" where
  "selected c (path, Node entry file_at dir_at) =
     (d_name entry \<noteq> ''.'' \<and> d_name entry \<noteq> ''..'' \<and> d_type entry = DT_REG \<and>
      satisfies c entry file_at)"

fun entry_path :: "string \<times> node \<Rightarrow> string" where
  "entry_path (path, Node entry file_at dir_at) = path @ d_name entry"

definition found :: "FilterCriteria \<Rightarrow> string \<Rightarrow> dirstream \<Rightarrow> string list" where
  "found c path stream = map entry_path (filter (selected c) (reached path stream))"

definition found_buf :: "FilterCriteria \<Rightarrow> string \<Rightarrow> node list \<Rightarrow> string list" where
  "found_buf c path es = map entry_path (filter (selected c) (reached_buf path es))"

text \<open>The pseudo-entries of a directory: the self reference and the parent reference.\<close>

fun node_name :: "node \<Rightarrow> string" where
  "node_name (Node entry file_at dir_at) = d_name entry"

definition pseudo_entry :: "node \<Rightarrow> bool" where
  "pseudo_entry n = (node_name n = ''.'' \<or> node_name n = ''..'')"

text \<open>A read of a directory that returned at least one record.\<close>

fun full_read :: "node list sysret \<Rightarrow> bool" where
  "full_read (Ret (e # es)) = True"
| "full_read (Ret []) = False"
| "full_read (Failed errno) = False"

text \<open>The ResultSet that \<open>main\<close> hands to the dispatch, when it gets there.\<close>

definition main_results :: "kernel \<Rightarrow> string list \<Rightarrow> string list option" where
  "main_results k argv = (case main k argv of Inl a \<Rightarrow> None | Inr (x, s) \<Rightarrow> Some (results s))"

text \<open>
  How a command line reads, past the program name: an argument that begins with
  \<^verbatim>\<open>-\<close> is an option and takes the next argument as its value, whatever that is; any
  other argument is a directory.
\<close>

datatype arg = Opt string string | Lone string | Dir string

definition is_flag :: "string \<Rightarrow> bool" where
  "is_flag a = (case a of [] \<Rightarrow> False | c # r \<Rightarrow> c = CHR ''-'')"

fun split_args :: "string list \<Rightarrow> arg list" where
  "split_args [] = []"
| "split_args [a] = (if is_flag a then [Lone a] else [Dir a])"
| "split_args (a # v # rest) =
     (if is_flag a then Opt a v # split_args rest else Dir a # split_args (v # rest))"

definition known_flags :: "string list" where
  "known_flags = [''-inum'', ''-name'', ''-size'', ''-nlinks'', ''-exec'']"

fun unknown_flag :: "arg \<Rightarrow> bool" where
  "unknown_flag (Opt a v) = (a \<notin> set known_flags)"
| "unknown_flag (Lone a) = (a \<notin> set known_flags)"
| "unknown_flag (Dir d) = False"

fun is_dir :: "arg \<Rightarrow> bool" where
  "is_dir (Dir d) = True"
| "is_dir (Opt a v) = False"
| "is_dir (Lone a) = False"

fun option_names :: "arg list \<Rightarrow> string list" where
  "option_names [] = []"
| "option_names (Opt a v # rest) = a # option_names rest"
| "option_names (Lone a # rest) = option_names rest"
| "option_names (Dir d # rest) = option_names rest"

text \<open>
  The global variable an option writes is set when it differs from its initial
  value. An option with a value stores a set value unless the value is the initial
  one again: the number 0, the empty string, a size without a mode prefix.
\<close>

definition has_mode_prefix :: "string \<Rightarrow> bool" where
  "has_mode_prefix v =
     (case v of [] \<Rightarrow> False | c # r \<Rightarrow> c = CHR ''-'' \<or> c = CHR ''='' \<or> c = CHR ''+'')"

definition target_set :: "string \<Rightarrow> state \<Rightarrow> bool" where
  "target_set a s =
     (a = ''-inum'' \<and> inode_target s \<noteq> 0 \<or>
      a = ''-name'' \<and> name_target s \<noteq> [] \<or>
      a = ''-size'' \<and> size_mode s \<noteq> NONE \<or>
      a = ''-nlinks'' \<and> nlinks_target s \<noteq> 0 \<or>
      a = ''-exec'' \<and> exec_target s \<noteq> [])"

definition stores :: "string \<Rightarrow> string \<Rightarrow> bool" where
  "stores a v =
     (a = ''-inum'' \<and> stoul v \<noteq> Inr 0 \<or>
      a = ''-name'' \<and> v \<noteq> [] \<or>
      a = ''-size'' \<and> has_mode_prefix v \<or>
      a = ''-nlinks'' \<and> stoul v \<noteq> Inr 0 \<or>
      a = ''-exec'' \<and> v \<noteq> [])"

fun repeated_after_set :: "arg list \<Rightarrow> bool" where
  "repeated_after_set [] = False"
| "repeated_after_set (Opt a v # rest) =
     (stores a v \<and> a \<in> set (option_names rest) \<or> repeated_after_set rest)"
| "repeated_after_set (Lone a # rest) = repeated_after_set rest"
| "repeated_after_set (Dir d # rest) = repeated_after_set rest"

text \<open>
  A walk is well named when no directory lists a name twice (a directory being known
  by its path) and no name holds a \<^verbatim>\<open>/\<close>, as in every directory the kernel hands out.
\<close>

definition well_named :: "string \<Rightarrow> dirstream \<Rightarrow> bool" where
  "well_named path stream =
     (distinct (map (\<lambda>(p, n). (p, node_name n)) (reached path stream)) \<and>
      list_all (\<lambda>(p, n). CHR ''/'' \<notin> set (node_name n)) (reached path stream))"

text \<open>A path prefix relative to the root: empty, or ending in the separator.\<close>

definition dir_prefix :: "string \<Rightarrow> bool" where
  "dir_prefix rel = (rel = [] \<or> last rel = CHR ''/'')"







text \<open>
  Command lines that the parser refuses: an unknown flag where an option is
  expected, a flag repeated after an occurrence that stored a set value, or no
  directory.
\<close>

definition bad_command_line :: "arg list \<Rightarrow> bool" where
  "bad_command_line cmd =
     (list_ex unknown_flag cmd \<or> repeated_after_set cmd \<or> \<not> list_ex is_dir cmd)"

text \<open>
  A root directory \<^verbatim>\<open>/tmp\<close> holding the single regular file \<^verbatim>\<open>a\<close> with inode 5, and an
  \<^verbatim>\<open>execv\<close> that succeeds.
\<close>

definition tmp_stream :: dirstream where
  "tmp_stream =
     [Ret [Node \<lparr>d_ino = 5, d_type = DT_REG, d_name = ''a''\<rparr>
             (Ret (Ret \<lparr>st_size = 100, st_nlink = 1\<rparr>)) (Failed 20)]]"

definition tmp_kernel :: kernel where
  "tmp_kernel = \<lparr>open_root = (\<lambda>arg. Ret tmp_stream), execv_fails = (\<lambda>file args. None)\<rparr>"

section \<open>Properties of the filter and of the walker\<close>

lemma lowest_fd_fresh: "lowest_fd used \<notin> set used"
proof (cases "find (\<lambda>n. n \<notin> set used) [0..<Suc (length used)]")
  case None
  then have "\<forall>n \<in> set [0..<Suc (length used)]. n \<in> set used"
    by (simp only: find_None_iff) blast
  then have "{0..<Suc (length used)} \<subseteq> set used"
    by (simp only: set_upt) blast
  then have "card {0..<Suc (length used)} \<le> card (set used)"
    by (intro card_mono) auto
  moreover have "card (set used) \<le> length used"
    by (rule card_length)
  ultimately show ?thesis by simp
next
  case (Some n)
  then have "n \<notin> set used"
    by (auto simp: find_Some_iff)
  with Some show ?thesis by (simp add: lowest_fd_def)
qed

lemma DT_DIR_not_REG: "DT_DIR \<noteq> DT_REG"
  by (simp add: DT_DIR_def DT_REG_def)

lemma matches_verdict:
  assumes "posix_file file_at"
  shows "\<exists>s1. matches entry file_at dir_fd dir_path s =
                 Inr (satisfies (criteria s) entry file_at, s1) \<and>
               results s1 = results s \<and> criteria s1 = criteria s"
  using assms
  by (cases "size_mode s")
     (auto simp add: matches_def satisfies_def criteria_def posix_file_def print_error_def Let_def
        split: sysret.splits)

lemma criteria_upd [simp]:
  "criteria (s\<lparr>syscalls := a\<rparr>) = criteria s"
  "criteria (s\<lparr>cout := b\<rparr>) = criteria s"
  "criteria (s\<lparr>fds := c\<rparr>) = criteria s"
  "criteria (s\<lparr>results := d\<rparr>) = criteria s"
  by (simp_all add: criteria_def)

lemma print_error_ok:
  "errno \<noteq> 0 \<Longrightarrow> print_error errno s = Inr (s\<lparr>cout := cout s @ [Strerror errno, Endl]\<rparr>)"
  by (simp add: print_error_def)

lemma found_simps:
  "found c path [] = []"
  "found c path (Failed errno # later) = []"
  "found c path (Ret [] # later) = []"
  "found c path (Ret (e # es) # later) = found_buf c path (e # es) @ found c path later"
  by (simp_all add: found_def found_buf_def)

lemma found_buf_Nil: "found_buf c path [] = []"
  by (simp add: found_buf_def)

lemma found_buf_dot:
  "d_name entry = ''.'' \<or> d_name entry = ''..'' \<Longrightarrow>
   found_buf c path (Node entry file_at dir_at # rest) = found_buf c path rest"
  by (erule disjE) (simp_all add: found_buf_def)

lemma found_buf_file:
  "\<not> (d_name entry = ''.'' \<or> d_name entry = ''..'') \<Longrightarrow> d_type entry = DT_REG \<Longrightarrow>
   found_buf c path (Node entry file_at dir_at # rest) =
     (if satisfies c entry file_at then [path @ d_name entry] else []) @ found_buf c path rest"
  using DT_DIR_not_REG by (simp add: found_buf_def)

lemma found_buf_other:
  "\<not> (d_name entry = ''.'' \<or> d_name entry = ''..'') \<Longrightarrow> d_type entry \<noteq> DT_REG \<Longrightarrow>
   d_type entry \<noteq> DT_DIR \<Longrightarrow>
   found_buf c path (Node entry file_at dir_at # rest) = found_buf c path rest"
  by (simp add: found_buf_def)

lemma found_buf_dir_failed:
  "\<not> (d_name entry = ''.'' \<or> d_name entry = ''..'') \<Longrightarrow> d_type entry = DT_DIR \<Longrightarrow>
   found_buf c path (Node entry file_at (Failed errno) # rest) = found_buf c path rest"
  using DT_DIR_not_REG by (simp add: found_buf_def)

lemma found_buf_dir:
  "\<not> (d_name entry = ''.'' \<or> d_name entry = ''..'') \<Longrightarrow> d_type entry = DT_DIR \<Longrightarrow>
   found_buf c path (Node entry file_at (Ret stream) # rest) =
     found c (path @ d_name entry @ ''/'') stream @ found_buf c path rest"
  using DT_DIR_not_REG by (simp add: found_buf_def found_def)

lemma visit_results_aux:
  "posix_stream stream \<longrightarrow>
     (case visit dir_fd path stream s of
        Inl a \<Rightarrow> False
      | Inr s' \<Rightarrow> results s' = results s @ found (criteria s) path stream \<and>
                 criteria s' = criteria s)"
  "posix_buf es \<longrightarrow>
     (case visit_buf dir_fd path es s of
        Inl a \<Rightarrow> False
      | Inr s' \<Rightarrow> results s' = results s @ found_buf (criteria s) path es \<and>
                 criteria s' = criteria s)"
proof (induction dir_fd path stream s and dir_fd path es s rule: visit_visit_buf.induct)
  case (1 dir_fd path s)
  show ?case by (simp add: found_simps)
next
  case (2 dir_fd path errno later s)
  show ?case by (simp add: found_simps print_error_ok Let_def)
next
  case (3 dir_fd path later s)
  show ?case by (simp add: found_simps)
next
  case (4 dir_fd path e es later s)
  show ?case
  proof
    assume px: "posix_stream (Ret (e # es) # later)"
    let ?s0 = "s\<lparr>syscalls := syscalls s @ [Sys_getdents64 dir_fd]\<rparr>"
    from px "4.IH"(1) obtain s1 where
      s1: "visit_buf dir_fd path (e # es) ?s0 = Inr s1"
          "results s1 = results ?s0 @ found_buf (criteria ?s0) path (e # es)"
          "criteria s1 = criteria ?s0"
      by (auto split: sum.splits)
    from px "4.IH"(2)[OF s1(1)] obtain s2 where
      s2: "visit dir_fd path later s1 = Inr s2"
          "results s2 = results s1 @ found (criteria s1) path later"
          "criteria s2 = criteria s1"
      by (auto split: sum.splits)
    show "case visit dir_fd path (Ret (e # es) # later) s of
        Inl a \<Rightarrow> False
      | Inr s' \<Rightarrow> results s' = results s @ found (criteria s) path (Ret (e # es) # later) \<and>
                 criteria s' = criteria s"
      using s1 s2 by (simp add: found_simps)
  qed
next
  case (5 dir_fd path s)
  show ?case by (simp add: found_buf_Nil)
next
  case (6 dir_fd path entry file_at dir_at rest s)
  note IH = "6.IH"
  show ?case
  proof
    assume px: "posix_buf (Node entry file_at dir_at # rest)"
    then have pf: "posix_file file_at" and pr: "posix_buf rest"
      by simp_all
    let ?goal = "case visit_buf dir_fd path (Node entry file_at dir_at # rest) s of
        Inl a \<Rightarrow> False
      | Inr s' \<Rightarrow> results s' = results s @ found_buf (criteria s) path (Node entry file_at dir_at # rest) \<and>
                 criteria s' = criteria s"
    show ?goal
    proof (cases "d_name entry = ''.'' \<or> d_name entry = ''..''")
      case True
      from IH(1)[OF refl True] pr obtain s' where
        "visit_buf dir_fd path rest s = Inr s'"
        "results s' = results s @ found_buf (criteria s) path rest"
        "criteria s' = criteria s"
        by (auto split: sum.splits)
      with True show ?thesis
        by (simp add: found_buf_dot)
    next
      case nodot: False
      show ?thesis
      proof (cases "d_type entry = DT_REG")
        case reg: True
        from matches_verdict[OF pf, of entry dir_fd path s] obtain s1 where
          m: "matches entry file_at dir_fd path s = Inr (satisfies (criteria s) entry file_at, s1)"
             "results s1 = results s" "criteria s1 = criteria s"
          by blast
        show ?thesis
        proof (cases "satisfies (criteria s) entry file_at")
          case True
          have "(if d_type entry = DT_REG then matches entry file_at dir_fd path s
                 else Inr (False, s)) = Inr (True, s1)"
            using reg m True by simp
          from IH(2)[OF refl nodot this refl refl] pr obtain s' where
            "visit_buf dir_fd path rest (s1\<lparr>results := results s1 @ [path @ d_name entry]\<rparr>) = Inr s'"
            "results s' = results (s1\<lparr>results := results s1 @ [path @ d_name entry]\<rparr>) @
                found_buf (criteria (s1\<lparr>results := results s1 @ [path @ d_name entry]\<rparr>)) path rest"
            "criteria s' = criteria (s1\<lparr>results := results s1 @ [path @ d_name entry]\<rparr>)"
            by (auto split: sum.splits)
          with nodot reg m True show ?thesis
            by (simp add: found_buf_file)
        next
          case False
          have "(if d_type entry = DT_REG then matches entry file_at dir_fd path s
                 else Inr (False, s)) = Inr (False, s1)"
            using reg m False by simp
          moreover have "d_type entry \<noteq> DT_DIR"
            using reg DT_DIR_not_REG by simp
          ultimately obtain s' where
            "visit_buf dir_fd path rest s1 = Inr s'"
            "results s' = results s1 @ found_buf (criteria s1) path rest"
            "criteria s' = criteria s1"
            using IH(6)[OF refl nodot _ refl refl] pr by (auto split: sum.splits)
          with nodot reg m False \<open>d_type entry \<noteq> DT_DIR\<close> show ?thesis
            by (simp add: found_buf_file)
        qed
      next
        case noreg: False
        have m: "(if d_type entry = DT_REG then matches entry file_at dir_fd path s
                 else Inr (False, s)) = Inr (False, s)"
          using noreg by simp
        show ?thesis
        proof (cases "d_type entry = DT_DIR")
          case False
          from IH(6)[OF refl nodot m refl refl False] pr obtain s' where
            "visit_buf dir_fd path rest s = Inr s'"
            "results s' = results s @ found_buf (criteria s) path rest"
            "criteria s' = criteria s"
            by (auto split: sum.splits)
          with nodot noreg False show ?thesis
            by (simp add: found_buf_other)
        next
          case dir: True
          let ?s2 = "s\<lparr>syscalls := syscalls s @ [Sys_openat dir_fd (d_name entry) True]\<rparr>"
          show ?thesis
          proof (cases dir_at)
            case (Failed errno)
            with px have e0: "errno \<noteq> 0" by simp
            let ?s3 = "?s2\<lparr>cout := cout ?s2 @
                     [Text ''Error reading contents of '', Text path, Text (d_name entry),
                      Text ''/'', Endl, Strerror errno, Endl]\<rparr>"
            have pe: "print_error errno
                    (?s2\<lparr>cout := cout ?s2 @
                       [Text ''Error reading contents of '', Text path, Text (d_name entry),
                        Text ''/'', Endl]\<rparr>) = Inr ?s3"
              using e0 by (simp add: print_error_def)
            from IH(3)[OF refl nodot m refl refl dir refl Failed pe] pr obtain s' where
              "visit_buf dir_fd path rest ?s3 = Inr s'"
              "results s' = results ?s3 @ found_buf (criteria ?s3) path rest"
              "criteria s' = criteria ?s3"
              by (auto split: sum.splits)
            with nodot noreg dir Failed pe show ?thesis
              by (simp add: found_buf_dir_failed Let_def)
          next
            case (Ret stream)
            with px have ps: "posix_stream stream" by simp
            let ?fd = "lowest_fd (fds ?s2)"
            let ?s3 = "?s2\<lparr>fds := fds ?s2 @ [?fd]\<rparr>"
            from IH(4)[OF refl nodot m refl refl dir refl Ret refl] ps obtain s4 where
              s4: "visit ?fd (path @ d_name entry @ ''/'') stream ?s3 = Inr s4"
                  "results s4 = results ?s3 @ found (criteria ?s3) (path @ d_name entry @ ''/'') stream"
                  "criteria s4 = criteria ?s3"
              by (auto split: sum.splits)
            let ?s5 = "s4\<lparr>fds := removeAll ?fd (fds s4), syscalls := syscalls s4 @ [Sys_close ?fd]\<rparr>"
            from IH(5)[OF refl nodot m refl refl dir refl Ret refl s4(1)] pr obtain s' where
              "visit_buf dir_fd path rest ?s5 = Inr s'"
              "results s' = results ?s5 @ found_buf (criteria ?s5) path rest"
              "criteria s' = criteria ?s5"
              by (auto split: sum.splits)
            with nodot noreg dir Ret s4 show ?thesis
              by (simp add: found_buf_dir Let_def)
          qed
        qed
      qed
    qed
  qed
qed

section \<open>The size check (C1)\<close>

text \<open>
  C1. When a size criterion is configured and the status of the file was fetched,
  the size check passes exactly on these boundaries: in mode LESS if and only if
  the size is at most the threshold, in mode EQUAL if and only if it is the
  threshold, in mode GREATER if and only if it is at least the threshold. The other
  checks are taken to pass, so that the verdict of \<open>matches\<close> is the size check.
\<close>

theorem matches_size_boundaries:
  assumes "size_mode s \<noteq> NONE"
    and "inode_target s = 0 \<or> d_ino entry = inode_target s"
    and "name_target s = [] \<or> d_name entry = name_target s"
    and "nlinks_target s = 0 \<or> st_nlink stats = nlinks_target s"
  shows "\<exists>s'. matches entry (Ret (Ret stats)) dir_fd dir_path s =
           Inr ((case size_mode s of
                   LESS \<Rightarrow> st_size stats \<le> size_target s
                 | EQUAL \<Rightarrow> st_size stats = size_target s
                 | GREATER \<Rightarrow> size_target s \<le> st_size stats
                 | NONE \<Rightarrow> True), s')"
  using assms by (cases "size_mode s") (auto simp add: matches_def Let_def)

text \<open>
  The boundary scenario of the specification: a file of 100 bytes against the
  threshold 100 in each mode, 101 bytes in mode LESS and 99 bytes in mode GREATER.
\<close>

theorem matches_size_boundaries_witness:
  "(\<exists>s'. matches \<lparr>d_ino = 7, d_type = DT_REG, d_name = ''a''\<rparr>
            (Ret (Ret \<lparr>st_size = 100, st_nlink = 1\<rparr>)) 3 ''dir/''
            (initial_state\<lparr>size_mode := LESS, size_target := 100\<rparr>) = Inr (True, s')) \<and>
   (\<exists>s'. matches \<lparr>d_ino = 7, d_type = DT_REG, d_name = ''a''\<rparr>
            (Ret (Ret \<lparr>st_size = 101, st_nlink = 1\<rparr>)) 3 ''dir/''
            (initial_state\<lparr>size_mode := LESS, size_target := 100\<rparr>) = Inr (False, s')) \<and>
   (\<exists>s'. matches \<lparr>d_ino = 7, d_type = DT_REG, d_name = ''a''\<rparr>
            (Ret (Ret \<lparr>st_size = 100, st_nlink = 1\<rparr>)) 3 ''dir/''
            (initial_state\<lparr>size_mode := EQUAL, size_target := 100\<rparr>) = Inr (True, s')) \<and>
   (\<exists>s'. matches \<lparr>d_ino = 7, d_type = DT_REG, d_name = ''a''\<rparr>
            (Ret (Ret \<lparr>st_size = 100, st_nlink = 1\<rparr>)) 3 ''dir/''
            (initial_state\<lparr>size_mode := GREATER, size_target := 100\<rparr>) = Inr (True, s')) \<and>
   (\<exists>s'. matches \<lparr>d_ino = 7, d_type = DT_REG, d_name = ''a''\<rparr>
            (Ret (Ret \<lparr>st_size = 99, st_nlink = 1\<rparr>)) 3 ''dir/''
            (initial_state\<lparr>size_mode := GREATER, size_target := 100\<rparr>) = Inr (False, s'))"
  using
    matches_size_boundaries [of "initial_state\<lparr>size_mode := LESS, size_target := 100\<rparr>"
      "\<lparr>d_ino = 7, d_type = DT_REG, d_name = ''a''\<rparr>" "\<lparr>st_size = 100, st_nlink = 1\<rparr>" 3 "''dir/''"]
    matches_size_boundaries [of "initial_state\<lparr>size_mode := LESS, size_target := 100\<rparr>"
      "\<lparr>d_ino = 7, d_type = DT_REG, d_name = ''a''\<rparr>" "\<lparr>st_size = 101, st_nlink = 1\<rparr>" 3 "''dir/''"]
    matches_size_boundaries [of "initial_state\<lparr>size_mode := EQUAL, size_target := 100\<rparr>"
      "\<lparr>d_ino = 7, d_type = DT_REG, d_name = ''a''\<rparr>" "\<lparr>st_size = 100, st_nlink = 1\<rparr>" 3 "''dir/''"]
    matches_size_boundaries [of "initial_state\<lparr>size_mode := GREATER, size_target := 100\<rparr>"
      "\<lparr>d_ino = 7, d_type = DT_REG, d_name = ''a''\<rparr>" "\<lparr>st_size = 100, st_nlink = 1\<rparr>" 3 "''dir/''"]
    matches_size_boundaries [of "initial_state\<lparr>size_mode := GREATER, size_target := 100\<rparr>"
      "\<lparr>d_ino = 7, d_type = DT_REG, d_name = ''a''\<rparr>" "\<lparr>st_size = 99, st_nlink = 1\<rparr>" 3 "''dir/''"]
  by (simp add: initial_state_def)

section \<open>The descriptor opened for the status (C2)\<close>

text \<open>
  \<open>matches\<close> has no call of \<^verbatim>\<open>close\<close>. Whenever it gets as far as opening the entry and
  the open succeeds, the new descriptor is still in the table when it returns,
  whatever the verdict, and no \<^verbatim>\<open>close\<close> was issued.
\<close>

lemma matches_keeps_descriptor:
  assumes "matches entry (Ret status) dir_fd dir_path s = Inr (verdict, s')"
    and "inode_target s = 0 \<or> d_ino entry = inode_target s"
    and "name_target s = [] \<or> d_name entry = name_target s"
    and "size_mode s \<noteq> NONE \<or> nlinks_target s \<noteq> 0"
  shows "fds s' = fds s @ [lowest_fd (fds s)] \<and> fds s' \<noteq> fds s \<and>
         (\<forall>fd. Sys_close fd \<in> set (syscalls s') \<longrightarrow> Sys_close fd \<in> set (syscalls s))"
  using assms
  by (cases "size_mode s"; cases status)
     (auto simp add: matches_def Let_def print_error_def split: if_splits)

text \<open>
  C2 says that the handle opened for the metadata fetch is closed before \<open>matches\<close>
  returns, so that the set of open handles is the same after the call as before.
  The code does not do that. With the criterion \<^verbatim>\<open>-size =100\<close>, the directory open on
  descriptor 3 and a regular file \<^verbatim>\<open>a\<close> of 100 bytes, \<open>matches\<close> accepts the file and
  returns with descriptor 4 open, having called \<^verbatim>\<open>openat\<close> and \<^verbatim>\<open>fstat\<close> and nothing else.
\<close>

theorem matches_leaves_descriptor_open:
  "matches \<lparr>d_ino = 7, d_type = DT_REG, d_name = ''a''\<rparr>
     (Ret (Ret \<lparr>st_size = 100, st_nlink = 1\<rparr>)) 3 ''dir/''
     (initial_state\<lparr>size_mode := EQUAL, size_target := 100, fds := [0, 1, 2, 3]\<rparr>) =
   Inr (True, initial_state\<lparr>size_mode := EQUAL, size_target := 100, fds := [0, 1, 2, 3, 4],
               syscalls := [Sys_openat 3 ''a'' False, Sys_fstat 4]\<rparr>)"
  by (simp add: matches_def initial_state_def lowest_fd_def Let_def)

section \<open>The short circuit (C6)\<close>

text \<open>
  C6. When the criteria configure neither a size comparison nor a link count,
  \<open>matches\<close> decides from the inode and the name of the entry alone: the verdict is
  the conjunction of the two checks, whatever the kernel would answer for the
  entry, and the state comes back as it was, so no descriptor was opened and no
  system call issued.
\<close>

theorem matches_short_circuit:
  assumes "size_mode s = NONE" and "nlinks_target s = 0"
  shows "matches entry file_at dir_fd dir_path s =
           Inr ((inode_target s = 0 \<or> d_ino entry = inode_target s) \<and>
                (name_target s = [] \<or> d_name entry = name_target s), s)"
  using assms by (simp add: matches_def)

theorem matches_short_circuit_witness:
  "matches \<lparr>d_ino = 7, d_type = DT_REG, d_name = ''a''\<rparr> (Failed 13) 3 ''dir/''
     (initial_state\<lparr>name_target := ''a''\<rparr>) = Inr (True, initial_state\<lparr>name_target := ''a''\<rparr>) \<and>
   matches \<lparr>d_ino = 7, d_type = DT_REG, d_name = ''a''\<rparr> (Failed 13) 3 ''dir/''
     (initial_state\<lparr>inode_target := 8\<rparr>) = Inr (False, initial_state\<lparr>inode_target := 8\<rparr>)"
  using
    matches_short_circuit [of "initial_state\<lparr>name_target := ''a''\<rparr>"
      "\<lparr>d_ino = 7, d_type = DT_REG, d_name = ''a''\<rparr>" "Failed 13" 3 "''dir/''"]
    matches_short_circuit [of "initial_state\<lparr>inode_target := 8\<rparr>"
      "\<lparr>d_ino = 7, d_type = DT_REG, d_name = ''a''\<rparr>" "Failed 13" 3 "''dir/''"]
  by (simp add: initial_state_def)

section \<open>Paths of a walk\<close>

text \<open>
  The walk under a path prefix is the walk under the empty prefix with the prefix
  put in front of every path.
\<close>

lemma reached_prefix:
  "reached (root @ path) stream = map (\<lambda>(p, n). (root @ p, n)) (reached path stream)"
  "reached_buf (root @ path) es = map (\<lambda>(p, n). (root @ p, n)) (reached_buf path es)"
proof (induction path stream and path es rule: reached_reached_buf.induct)
  case (6 path entry file_at dir_at rest)
  then show ?case by (cases dir_at) simp_all
qed simp_all

lemma selected_prefix: "selected c (root @ p, n) = selected c (p, n)"
  by (cases n) simp

lemma entry_path_prefix: "entry_path (root @ p, n) = root @ entry_path (p, n)"
  by (cases n) simp

lemma found_prefix:
  "found c root stream = map ((@) root) (found c [] stream)"
proof -
  have "reached root stream = map (\<lambda>(p, n). (root @ p, n)) (reached [] stream)"
    using reached_prefix(1) [of root "[]" stream] by simp
  then show ?thesis
    by (simp add: found_def filter_map comp_def case_prod_unfold selected_prefix entry_path_prefix)
qed

lemma reached_buf_other:
  assumes "\<not> (d_name entry \<noteq> ''.'' \<and> d_name entry \<noteq> ''..'' \<and> d_type entry = DT_DIR)"
  shows "reached_buf path (Node entry file_at dir_at # rest) =
           (path, Node entry file_at dir_at) # reached_buf path rest"
  by (subst reached_buf.simps) (simp only: assms if_False append_Nil)

lemma reached_dir_prefix:
  "dir_prefix rel \<longrightarrow> (\<forall>x \<in> set (reached rel stream). dir_prefix (fst x))"
  "dir_prefix rel \<longrightarrow> (\<forall>x \<in> set (reached_buf rel es). dir_prefix (fst x))"
proof (induction rel stream and rel es rule: reached_reached_buf.induct)
  case (6 path entry file_at dir_at rest)
  show ?case
  proof
    assume dp: "dir_prefix path"
    with "6.IH"(2) have rest: "\<forall>x \<in> set (reached_buf path rest). dir_prefix (fst x)"
      by simp
    have sub: "dir_prefix (path @ d_name entry @ ''/'')"
      by (simp add: dir_prefix_def)
    show "\<forall>x \<in> set (reached_buf path (Node entry file_at dir_at # rest)). dir_prefix (fst x)"
    proof (cases "d_name entry \<noteq> ''.'' \<and> d_name entry \<noteq> ''..'' \<and> d_type entry = DT_DIR")
      case False
      then have "reached_buf path (Node entry file_at dir_at # rest) =
          (path, Node entry file_at dir_at) # reached_buf path rest"
        by (rule reached_buf_other)
      then show ?thesis
        unfolding \<open>reached_buf path (Node entry file_at dir_at # rest) =
          (path, Node entry file_at dir_at) # reached_buf path rest\<close>
        using dp rest by simp
    next
      case True
      show ?thesis
      proof (cases dir_at)
        case (Failed errno)
        with True dp rest show ?thesis by simp
      next
        case (Ret stream)
        from "6.IH"(1) [OF True Ret] sub
        have "\<forall>x \<in> set (reached (path @ d_name entry @ ''/'') stream). dir_prefix (fst x)"
          by simp
        with True Ret dp rest show ?thesis by (simp add: ball_Un)
      qed
    qed
  qed
qed (simp_all add: ball_Un)

text \<open>
  A path prefix and a name without \<^verbatim>\<open>/\<close> can be read back from their concatenation, so
  distinct entries of a well-named walk have distinct paths.
\<close>

lemma last_component:
  assumes "dir_prefix p" and "CHR ''/'' \<notin> set a"
  shows "takeWhile (\<lambda>c. c \<noteq> CHR ''/'') (rev (p @ a)) = rev a"
proof (cases "p = []")
  case True
  from assms(2) have "\<forall>c \<in> set (rev a). c \<noteq> CHR ''/''" by auto
  then have "takeWhile (\<lambda>c. c \<noteq> CHR ''/'') (rev a) = rev a"
    by (simp only: takeWhile_eq_all_conv)
  with True show ?thesis by simp
next
  case False
  with assms(1) obtain q where q: "p = q @ ''/''"
    by (metis append_butlast_last_id dir_prefix_def)
  have "takeWhile (\<lambda>c. c \<noteq> CHR ''/'') (rev a @ CHR ''/'' # rev q) =
        rev a @ takeWhile (\<lambda>c. c \<noteq> CHR ''/'') (CHR ''/'' # rev q)"
    by (rule takeWhile_append2) (use assms(2) in auto)
  with q show ?thesis by simp
qed

lemma join_inj:
  assumes "dir_prefix p" and "dir_prefix q" and "CHR ''/'' \<notin> set a" and "CHR ''/'' \<notin> set b"
    and "p @ a = q @ b"
  shows "p = q \<and> a = b"
proof -
  have "rev a = rev b"
    using last_component [OF assms(1,3)] last_component [OF assms(2,4)] assms(5) by simp
  then have "a = b" by simp
  with assms(5) show ?thesis by simp
qed

lemma entry_path_conv: "entry_path x = fst x @ node_name (snd x)"
  by (cases x; cases "snd x") auto

lemma well_named_distinct:
  assumes "well_named path stream"
  shows "distinct (map entry_path (filter P (reached path stream)))"
proof -
  let ?xs = "reached [] stream"
  have r: "reached path stream = map (\<lambda>(p, n). (path @ p, n)) ?xs"
    using reached_prefix(1) [of path "[]" stream] by simp
  have dp: "\<forall>x \<in> set ?xs. dir_prefix (fst x)"
    using reached_dir_prefix(1) [of "[]" stream] by (simp add: dir_prefix_def)
  from assms have d: "distinct (map (\<lambda>x. (path @ fst x, node_name (snd x))) ?xs)"
    and sl: "\<forall>x \<in> set ?xs. CHR ''/'' \<notin> set (node_name (snd x))"
    by (simp_all add: well_named_def r comp_def case_prod_unfold list_all_iff)
  have "inj_on (\<lambda>x. path @ fst x @ node_name (snd x)) (set ?xs)"
  proof (rule inj_onI)
    fix x y
    assume x: "x \<in> set ?xs" and y: "y \<in> set ?xs"
      and e: "path @ fst x @ node_name (snd x) = path @ fst y @ node_name (snd y)"
    from e have "fst x @ node_name (snd x) = fst y @ node_name (snd y)" by simp
    with x y dp sl have "fst x = fst y \<and> node_name (snd x) = node_name (snd y)"
      by (intro join_inj) auto
    then have "(path @ fst x, node_name (snd x)) = (path @ fst y, node_name (snd y))" by simp
    with d x y show "x = y"
      by (meson distinct_map inj_onD)
  qed
  moreover from d have "distinct ?xs"
    by (simp add: distinct_map)
  ultimately have "distinct (map (\<lambda>x. path @ fst x @ node_name (snd x)) ?xs)"
    by (simp add: distinct_map)
  then have "distinct (map entry_path (reached path stream))"
    by (simp add: r comp_def case_prod_unfold entry_path_conv)
  then show ?thesis
    by (rule distinct_map_filter)
qed

section \<open>What the walker appends (C4)\<close>

text \<open>
  C4. In a tree whose failures carry POSIX error numbers the walk returns, and the
  paths it has appended to the ResultSet are those of the entries it came across
  that are regular files, are not pseudo-entries and satisfy every set field of
  the criteria, one path for each such entry and none for any other. In a
  well-named tree these paths are pairwise different, so no path is appended twice.
  An entry that is neither a regular file nor a directory leaves no trace at all:
  the walker goes on with the next entry in the state it was in.
\<close>

theorem visit_appends_selected:
  "(posix_stream stream \<longrightarrow>
      (\<exists>s'. visit dir_fd path stream s = Inr s' \<and>
            results s' =
              results s @ map entry_path (filter (selected (criteria s)) (reached path stream)))) \<and>
   (well_named path stream \<longrightarrow>
      distinct (map entry_path (filter (selected (criteria s)) (reached path stream)))) \<and>
   (d_type entry \<noteq> DT_REG \<and> d_type entry \<noteq> DT_DIR \<longrightarrow>
      visit_buf dir_fd path (Node entry file_at dir_at # rest) s = visit_buf dir_fd path rest s)"
proof (intro conjI impI)
  assume "posix_stream stream"
  with visit_results_aux(1) [where stream = stream and dir_fd = dir_fd and path = path and s = s]
  obtain s' where
    "visit dir_fd path stream s = Inr s'"
    "results s' = results s @ found (criteria s) path stream"
    by (auto split: sum.splits)
  then have "visit dir_fd path stream s = Inr s' \<and>
           results s' =
             results s @ map entry_path (filter (selected (criteria s)) (reached path stream))"
    by (simp add: found_def)
  then show "\<exists>s'. visit dir_fd path stream s = Inr s' \<and>
            results s' =
              results s @ map entry_path (filter (selected (criteria s)) (reached path stream))"
    by (rule exI)
next
  assume "well_named path stream"
  then show "distinct (map entry_path (filter (selected (criteria s)) (reached path stream)))"
    by (rule well_named_distinct)
next
  assume "d_type entry \<noteq> DT_REG \<and> d_type entry \<noteq> DT_DIR"
  then show "visit_buf dir_fd path (Node entry file_at dir_at # rest) s =
      visit_buf dir_fd path rest s"
    by (simp add: Let_def)
qed

text \<open>
  A directory holding the regular file \<^verbatim>\<open>a\<close> and an entry \<^verbatim>\<open>l\<close> of type symbolic link
  (\<^verbatim>\<open>DT_LNK\<close>, 10), walked without criteria.
\<close>

theorem visit_appends_selected_witness:
  "posix_stream
     [Ret [Node \<lparr>d_ino = 7, d_type = DT_REG, d_name = ''a''\<rparr> (Failed 13) (Failed 20),
           Node \<lparr>d_ino = 8, d_type = 10, d_name = ''l''\<rparr> (Failed 13) (Ret [])]] \<and>
   well_named ''dir/''
     [Ret [Node \<lparr>d_ino = 7, d_type = DT_REG, d_name = ''a''\<rparr> (Failed 13) (Failed 20),
           Node \<lparr>d_ino = 8, d_type = 10, d_name = ''l''\<rparr> (Failed 13) (Ret [])]] \<and>
   (\<exists>s'. visit 3 ''dir/''
       [Ret [Node \<lparr>d_ino = 7, d_type = DT_REG, d_name = ''a''\<rparr> (Failed 13) (Failed 20),
             Node \<lparr>d_ino = 8, d_type = 10, d_name = ''l''\<rparr> (Failed 13) (Ret [])]]
       initial_state = Inr s' \<and>
     results s' = [''dir/a'']) \<and>
   visit_buf 3 ''dir/'' [Node \<lparr>d_ino = 8, d_type = 10, d_name = ''l''\<rparr> (Failed 13) (Ret [])]
     initial_state = Inr initial_state"
proof -
  have p: "posix_stream
     [Ret [Node \<lparr>d_ino = 7, d_type = DT_REG, d_name = ''a''\<rparr> (Failed 13) (Failed 20),
           Node \<lparr>d_ino = 8, d_type = 10, d_name = ''l''\<rparr> (Failed 13) (Ret [])]]"
    by (simp add: posix_file_def)
  have w: "well_named ''dir/''
     [Ret [Node \<lparr>d_ino = 7, d_type = DT_REG, d_name = ''a''\<rparr> (Failed 13) (Failed 20),
           Node \<lparr>d_ino = 8, d_type = 10, d_name = ''l''\<rparr> (Failed 13) (Ret [])]]"
    by (simp add: well_named_def DT_REG_def DT_DIR_def)
  show ?thesis
    using p w visit_appends_selected
      [of "[Ret [Node \<lparr>d_ino = 7, d_type = DT_REG, d_name = ''a''\<rparr> (Failed 13) (Failed 20),
                 Node \<lparr>d_ino = 8, d_type = 10, d_name = ''l''\<rparr> (Failed 13) (Ret [])]]"
          3 "''dir/''" initial_state "\<lparr>d_ino = 8, d_type = 10, d_name = ''l''\<rparr>"
          "Failed 13" "Ret []" "[]"]
    by (simp add: satisfies_def criteria_def initial_state_def DT_REG_def DT_DIR_def)
qed

section \<open>Errors during the walk (C5)\<close>

lemma visit_read_error:
  assumes "list_all full_read pre" and "errno \<noteq> 0"
  shows "visit dir_fd path (pre @ Failed errno # later) s =
           (case visit dir_fd path pre s of
              Inl a \<Rightarrow> Inl a
            | Inr s1 \<Rightarrow>
                Inr (s1\<lparr>cout := cout s1 @
                      [Text ''Error reading contents of '', Text path, Endl,
                       Strerror errno, Endl]\<rparr>))"
  using assms(1)
proof (induction pre arbitrary: s)
  case Nil
  show ?case using assms(2) by (simp add: print_error_def Let_def)
next
  case (Cons b pre)
  then obtain e es where b: "b = Ret (e # es)"
    by (cases b rule: full_read.cases) simp_all
  from Cons.prems have "list_all full_read pre" by simp
  note IH = Cons.IH [OF this]
  show ?case
    by (simp add: b IH split: sum.splits)
qed

text \<open>
  C5. Errors of the traversal are local. (1) A read of a directory that fails after
  any number of successful reads: what was read before is processed as if the
  directory had ended there, the error is reported, and \<open>visit\<close> returns to its
  caller; nothing after the failed read is looked at. (2) When that directory is a
  subdirectory, its parent closes it and goes on with the next sibling. (3) A
  subdirectory that cannot be opened is reported and the walker goes on with the
  next sibling, without reading the subdirectory.
\<close>

theorem traversal_errors_are_local:
  assumes "errno \<noteq> 0" and "list_all full_read pre"
    and "d_name entry \<noteq> ''.''" and "d_name entry \<noteq> ''..''"
    and "d_type entry = DT_DIR"
  shows "visit dir_fd path (pre @ Failed errno # later) s =
           (case visit dir_fd path pre s of
              Inl a \<Rightarrow> Inl a
            | Inr s1 \<Rightarrow>
                Inr (s1\<lparr>cout := cout s1 @
                      [Text ''Error reading contents of '', Text path, Endl,
                       Strerror errno, Endl]\<rparr>)) \<and>
         visit_buf dir_fd path (Node entry file_at (Ret (pre @ Failed errno # later)) # rest) s =
           (case visit (lowest_fd (fds s)) (path @ d_name entry @ ''/'') pre
                   (s\<lparr>syscalls := syscalls s @ [Sys_openat dir_fd (d_name entry) True],
                      fds := fds s @ [lowest_fd (fds s)]\<rparr>) of
              Inl a \<Rightarrow> Inl a
            | Inr s1 \<Rightarrow>
                visit_buf dir_fd path rest
                  (s1\<lparr>cout := cout s1 @
                        [Text ''Error reading contents of '', Text (path @ d_name entry @ ''/''),
                         Endl, Strerror errno, Endl],
                      fds := removeAll (lowest_fd (fds s)) (fds s1),
                      syscalls := syscalls s1 @ [Sys_close (lowest_fd (fds s))]\<rparr>)) \<and>
         visit_buf dir_fd path (Node entry file_at (Failed errno) # rest) s =
           visit_buf dir_fd path rest
             (s\<lparr>syscalls := syscalls s @ [Sys_openat dir_fd (d_name entry) True],
                cout := cout s @
                  [Text ''Error reading contents of '', Text path, Text (d_name entry),
                   Text ''/'', Endl, Strerror errno, Endl]\<rparr>)"
proof (intro conjI)
  show "visit dir_fd path (pre @ Failed errno # later) s =
           (case visit dir_fd path pre s of
              Inl a \<Rightarrow> Inl a
            | Inr s1 \<Rightarrow>
                Inr (s1\<lparr>cout := cout s1 @
                      [Text ''Error reading contents of '', Text path, Endl,
                       Strerror errno, Endl]\<rparr>))"
    using assms(1,2) by (simp add: visit_read_error)
next
  show "visit_buf dir_fd path (Node entry file_at (Ret (pre @ Failed errno # later)) # rest) s =
           (case visit (lowest_fd (fds s)) (path @ d_name entry @ ''/'') pre
                   (s\<lparr>syscalls := syscalls s @ [Sys_openat dir_fd (d_name entry) True],
                      fds := fds s @ [lowest_fd (fds s)]\<rparr>) of
              Inl a \<Rightarrow> Inl a
            | Inr s1 \<Rightarrow>
                visit_buf dir_fd path rest
                  (s1\<lparr>cout := cout s1 @
                        [Text ''Error reading contents of '', Text (path @ d_name entry @ ''/''),
                         Endl, Strerror errno, Endl],
                      fds := removeAll (lowest_fd (fds s)) (fds s1),
                      syscalls := syscalls s1 @ [Sys_close (lowest_fd (fds s))]\<rparr>))"
    using assms DT_DIR_not_REG
    by (simp add: visit_read_error Let_def split: sum.splits)
next
  show "visit_buf dir_fd path (Node entry file_at (Failed errno) # rest) s =
           visit_buf dir_fd path rest
             (s\<lparr>syscalls := syscalls s @ [Sys_openat dir_fd (d_name entry) True],
                cout := cout s @
                  [Text ''Error reading contents of '', Text path, Text (d_name entry),
                   Text ''/'', Endl, Strerror errno, Endl]\<rparr>)"
    using assms DT_DIR_not_REG by (simp add: print_error_def Let_def)
qed

text \<open>
  A directory \<^verbatim>\<open>r/\<close> open on descriptor 3 with the subdirectory \<^verbatim>\<open>d\<close> and the regular
  file \<^verbatim>\<open>c\<close>. First the second read of \<^verbatim>\<open>d\<close> fails with \<^verbatim>\<open>EIO\<close> (5) after the first one
  returned the file \<^verbatim>\<open>a\<close>; then \<^verbatim>\<open>d\<close> cannot be opened (\<^verbatim>\<open>EACCES\<close>, 13). Both times the
  sibling \<^verbatim>\<open>c\<close> is found.
\<close>

theorem traversal_errors_are_local_witness:
  "visit_buf 3 ''r/''
     [Node \<lparr>d_ino = 5, d_type = DT_DIR, d_name = ''d''\<rparr> (Failed 21)
        (Ret [Ret [Node \<lparr>d_ino = 7, d_type = DT_REG, d_name = ''a''\<rparr> (Failed 13) (Failed 20)],
              Failed 5,
              Ret [Node \<lparr>d_ino = 8, d_type = DT_REG, d_name = ''b''\<rparr> (Failed 13) (Failed 20)]]),
      Node \<lparr>d_ino = 9, d_type = DT_REG, d_name = ''c''\<rparr> (Failed 13) (Failed 20)]
     (initial_state\<lparr>fds := [0, 1, 2, 3]\<rparr>) =
   Inr (initial_state
          \<lparr>results := [''r/d/a'', ''r/c''],
           cout := [Text ''Error reading contents of '', Text ''r/d/'', Endl, Strerror 5, Endl],
           fds := [0, 1, 2, 3],
           syscalls := [Sys_openat 3 ''d'' True, Sys_getdents64 4, Sys_getdents64 4,
                        Sys_close 4]\<rparr>) \<and>
   visit_buf 3 ''r/''
     [Node \<lparr>d_ino = 5, d_type = DT_DIR, d_name = ''d''\<rparr> (Failed 21) (Failed 13),
      Node \<lparr>d_ino = 9, d_type = DT_REG, d_name = ''c''\<rparr> (Failed 13) (Failed 20)]
     (initial_state\<lparr>fds := [0, 1, 2, 3]\<rparr>) =
   Inr (initial_state
          \<lparr>results := [''r/c''],
           cout := [Text ''Error reading contents of '', Text ''r/'', Text ''d'', Text ''/'', Endl,
                    Strerror 13, Endl],
           fds := [0, 1, 2, 3],
           syscalls := [Sys_openat 3 ''d'' True]\<rparr>)"
  using
    traversal_errors_are_local
      [of 5 "[Ret [Node \<lparr>d_ino = 7, d_type = DT_REG, d_name = ''a''\<rparr> (Failed 13) (Failed 20)]]"
          "\<lparr>d_ino = 5, d_type = DT_DIR, d_name = ''d''\<rparr>" 3 "''r/''"
          "[Ret [Node \<lparr>d_ino = 8, d_type = DT_REG, d_name = ''b''\<rparr> (Failed 13) (Failed 20)]]"
          "initial_state\<lparr>fds := [0, 1, 2, 3]\<rparr>" "Failed 21"
          "[Node \<lparr>d_ino = 9, d_type = DT_REG, d_name = ''c''\<rparr> (Failed 13) (Failed 20)]"]
    traversal_errors_are_local
      [of 13 "[]" "\<lparr>d_ino = 5, d_type = DT_DIR, d_name = ''d''\<rparr>" 3 "''r/''" "[]"
          "initial_state\<lparr>fds := [0, 1, 2, 3]\<rparr>" "Failed 21"
          "[Node \<lparr>d_ino = 9, d_type = DT_REG, d_name = ''c''\<rparr> (Failed 13) (Failed 20)]"]
  by (simp add: matches_def initial_state_def lowest_fd_def DT_DIR_def DT_REG_def)

section \<open>The order of the results (C7)\<close>

lemma reached_buf_append:
  "reached_buf path (before @ after) = reached_buf path before @ reached_buf path after"
proof (induction before)
  case Nil
  show ?case by simp
next
  case (Cons n before)
  then show ?case by (cases n) simp
qed

lemma found_buf_append:
  "found_buf c path (before @ after) = found_buf c path before @ found_buf c path after"
  by (simp add: found_buf_def reached_buf_append)

text \<open>
  C7. Results come in the order of the directory stream, depth first. Around a
  subdirectory anywhere in a buffer, the walk appends first the results of the
  entries before it, then everything found below the subdirectory, then the
  results of the entries after it; \<open>found\<close> and \<open>found_buf\<close> list the selected
  entries of a directory stream and of a buffer in pre-order.
\<close>

theorem subdirectory_matches_before_later_siblings:
  assumes "posix_buf (before @ Node entry file_at (Ret stream) # after)"
    and "\<not> pseudo_entry (Node entry file_at (Ret stream))"
    and "d_type entry = DT_DIR"
  shows "\<exists>s'. visit_buf dir_fd path (before @ Node entry file_at (Ret stream) # after) s = Inr s' \<and>
           results s' =
             results s @ found_buf (criteria s) path before @
             found (criteria s) (path @ d_name entry @ ''/'') stream @
             found_buf (criteria s) path after"
proof -
  from visit_results_aux(2)
         [where es = "before @ Node entry file_at (Ret stream) # after"
            and dir_fd = dir_fd and path = path and s = s] assms(1)
  obtain s' where
    "visit_buf dir_fd path (before @ Node entry file_at (Ret stream) # after) s = Inr s'"
    "results s' =
       results s @ found_buf (criteria s) path (before @ Node entry file_at (Ret stream) # after)"
    by (auto split: sum.splits)
  moreover have "found_buf (criteria s) path (Node entry file_at (Ret stream) # after) =
      found (criteria s) (path @ d_name entry @ ''/'') stream @ found_buf (criteria s) path after"
    using assms(2,3) by (intro found_buf_dir) (simp_all add: pseudo_entry_def)
  ultimately have "visit_buf dir_fd path (before @ Node entry file_at (Ret stream) # after) s = Inr s' \<and>
           results s' =
             results s @ found_buf (criteria s) path before @
             found (criteria s) (path @ d_name entry @ ''/'') stream @
             found_buf (criteria s) path after"
    by (simp add: found_buf_append)
  then show ?thesis by (rule exI)
qed

text \<open>
  The directory \<^verbatim>\<open>r/\<close> yields the file \<^verbatim>\<open>z\<close>, the subdirectory \<^verbatim>\<open>d\<close> holding \<^verbatim>\<open>y\<close> and \<^verbatim>\<open>x\<close>, and
  the file \<^verbatim>\<open>a\<close>: the results keep that order, which is not the sorted one.
\<close>

theorem subdirectory_matches_before_later_siblings_witness:
  "\<exists>s'. visit_buf 3 ''r/''
       ([Node \<lparr>d_ino = 1, d_type = DT_REG, d_name = ''z''\<rparr> (Failed 13) (Failed 20)] @
        Node \<lparr>d_ino = 2, d_type = DT_DIR, d_name = ''d''\<rparr> (Failed 21)
          (Ret [Ret [Node \<lparr>d_ino = 3, d_type = DT_REG, d_name = ''y''\<rparr> (Failed 13) (Failed 20),
                     Node \<lparr>d_ino = 4, d_type = DT_REG, d_name = ''x''\<rparr> (Failed 13) (Failed 20)]]) #
        [Node \<lparr>d_ino = 5, d_type = DT_REG, d_name = ''a''\<rparr> (Failed 13) (Failed 20)])
       initial_state = Inr s' \<and>
     results s' = [''r/z'', ''r/d/y'', ''r/d/x'', ''r/a'']"
  using subdirectory_matches_before_later_siblings
    [of "[Node \<lparr>d_ino = 1, d_type = DT_REG, d_name = ''z''\<rparr> (Failed 13) (Failed 20)]"
        "\<lparr>d_ino = 2, d_type = DT_DIR, d_name = ''d''\<rparr>" "Failed 21"
        "[Ret [Node \<lparr>d_ino = 3, d_type = DT_REG, d_name = ''y''\<rparr> (Failed 13) (Failed 20),
               Node \<lparr>d_ino = 4, d_type = DT_REG, d_name = ''x''\<rparr> (Failed 13) (Failed 20)]]"
        "[Node \<lparr>d_ino = 5, d_type = DT_REG, d_name = ''a''\<rparr> (Failed 13) (Failed 20)]"
        3 "''r/''" initial_state]
  by (simp add: found_def found_buf_def satisfies_def criteria_def initial_state_def
        posix_file_def pseudo_entry_def DT_REG_def DT_DIR_def)

section \<open>The pseudo-entries (C8)\<close>

text \<open>
  C8. The entries named \<^verbatim>\<open>.\<close> and \<^verbatim>\<open>..\<close> are skipped before anything else is done with
  them: processing a buffer is processing it with these entries taken out,
  whatever their type and inode and whatever opening them would give. So they are
  never handed to the filter, never appended and never descended into.
\<close>

theorem visit_buf_skips_pseudo_entries:
  "visit_buf dir_fd path es s = visit_buf dir_fd path (filter (\<lambda>n. \<not> pseudo_entry n) es) s"
proof (induction es arbitrary: s)
  case Nil
  show ?case by simp
next
  case (Cons n es)
  obtain entry file_at dir_at where n: "n = Node entry file_at dir_at"
    by (cases n)
  show ?case
  proof (cases "pseudo_entry n")
    case True
    then have "visit_buf dir_fd path (n # es) s = visit_buf dir_fd path es s"
      by (simp add: n pseudo_entry_def)
    with True Cons.IH show ?thesis by simp
  next
    case False
    then have "d_name entry \<noteq> ''.''" "d_name entry \<noteq> ''..''"
      by (simp_all add: n pseudo_entry_def)
    with False show ?thesis
      by (simp add: n Cons.IH Let_def
            cong: if_cong sum.case_cong prod.case_cong bool.case_cong sysret.case_cong)
  qed
qed

text \<open>
  A buffer with \<^verbatim>\<open>.\<close> typed as a directory that would open, \<^verbatim>\<open>..\<close> typed as a regular
  file, and the regular file \<^verbatim>\<open>a\<close>, walked without criteria: only \<^verbatim>\<open>a\<close> is appended and
  no system call is made.
\<close>

theorem visit_buf_skips_pseudo_entries_witness:
  "visit_buf 3 ''dir/''
     [Node \<lparr>d_ino = 1, d_type = DT_DIR, d_name = ''.''\<rparr> (Failed 21) (Ret []),
      Node \<lparr>d_ino = 2, d_type = DT_REG, d_name = ''..''\<rparr> (Failed 21) (Ret []),
      Node \<lparr>d_ino = 7, d_type = DT_REG, d_name = ''a''\<rparr> (Failed 13) (Failed 20)]
     initial_state =
   Inr (initial_state\<lparr>results := [''dir/a'']\<rparr>)"
  using visit_buf_skips_pseudo_entries [of 3 "''dir/''"
     "[Node \<lparr>d_ino = 1, d_type = DT_DIR, d_name = ''.''\<rparr> (Failed 21) (Ret []),
      Node \<lparr>d_ino = 2, d_type = DT_REG, d_name = ''..''\<rparr> (Failed 21) (Ret []),
      Node \<lparr>d_ino = 7, d_type = DT_REG, d_name = ''a''\<rparr> (Failed 13) (Failed 20)]"
     initial_state]
  by (simp add: pseudo_entry_def matches_def initial_state_def)

section \<open>Properties of the command-line parser\<close>

text \<open>What \<open>parse_option\<close> does for each of the five flags, and for any other name.\<close>

lemma flag_cases:
  obtains "a = ''-inum''" | "a = ''-name''" | "a = ''-size''" | "a = ''-nlinks''"
    | "a = ''-exec''" | "a \<notin> set known_flags"
  unfolding known_flags_def by (cases "a \<in> set [''-inum'', ''-name'', ''-size'', ''-nlinks'', ''-exec'']") auto

lemma parse_option_inum:
  "parse_option ''-inum'' v s =
     (if inode_target s \<noteq> 0 then Inl (error_multiple_specified ''inode number'' s)
      else (case stoul v of
              Inl error \<Rightarrow> Inl (s\<lparr>cout := cout s @ [Text ''Bad -inum argument'', Endl]\<rparr>)
            | Inr n \<Rightarrow> Inr (s\<lparr>inode_target := n\<rparr>)))"
  by (simp add: parse_option_def)

lemma parse_option_name:
  "parse_option ''-name'' v s =
     (if name_target s \<noteq> [] then Inl (error_multiple_specified ''file name'' s)
      else Inr (s\<lparr>name_target := v\<rparr>))"
  by (simp add: parse_option_def)

lemma parse_option_size:
  "parse_option ''-size'' v s =
     (if size_mode s \<noteq> NONE then Inl (error_multiple_specified ''file size'' s)
      else
        let c = (case v of [] \<Rightarrow> None | c # r \<Rightarrow> Some c);
            mode_specified = (c = Some CHR ''-'' \<or> c = Some CHR ''='' \<or> c = Some CHR ''+'');
            s1 = (if c = Some CHR ''-'' then s\<lparr>size_mode := LESS\<rparr>
                  else if c = Some CHR ''='' then s\<lparr>size_mode := EQUAL\<rparr>
                  else if c = Some CHR ''+'' then s\<lparr>size_mode := GREATER\<rparr>
                  else s)
        in
        case stoi (drop (if mode_specified then 1 else 0) v) of
          Inl error \<Rightarrow> Inl (s1\<lparr>cout := cout s1 @ [Text ''Bad -size argument'', Endl]\<rparr>)
        | Inr n \<Rightarrow> Inr (s1\<lparr>size_target := n\<rparr>))"
  by (simp add: parse_option_def)

lemma parse_option_nlinks:
  "parse_option ''-nlinks'' v s =
     (if nlinks_target s \<noteq> 0 then Inl (error_multiple_specified ''hardlinks number'' s)
      else (case stoul v of
              Inl error \<Rightarrow> Inl (s\<lparr>cout := cout s @ [Text ''Bad -nlinks argument'', Endl]\<rparr>)
            | Inr n \<Rightarrow> Inr (s\<lparr>nlinks_target := n\<rparr>)))"
  by (simp add: parse_option_def)

lemma parse_option_exec:
  "parse_option ''-exec'' v s =
     (if exec_target s \<noteq> [] then Inl (error_multiple_specified ''execution target'' s)
      else Inr (s\<lparr>exec_target := v\<rparr>))"
  by (simp add: parse_option_def)

lemma parse_option_unknown:
  "a \<notin> set known_flags \<Longrightarrow>
   parse_option a v s = Inl (s\<lparr>cout := cout s @ [Text ''Unknown option used: '', Text a, Endl]\<rparr>)"
  by (simp add: parse_option_def known_flags_def)

lemmas parse_option_flag =
  parse_option_inum parse_option_name parse_option_size parse_option_nlinks parse_option_exec

lemma parse_option_target_set:
  "target_set a s \<Longrightarrow> isl (parse_option a v s)"
  by (cases a rule: flag_cases) (simp_all add: parse_option_flag parse_option_unknown target_set_def)

lemma parse_option_stores:
  assumes "parse_option a v s = Inr s1" and "stores a v"
  shows "target_set a s1"
proof (cases a rule: flag_cases)
  case 1
  with assms show ?thesis
    by (auto simp add: parse_option_inum target_set_def stores_def split: if_splits sum.splits)
next
  case 2
  with assms show ?thesis
    by (auto simp add: parse_option_name target_set_def stores_def split: if_splits)
next
  case 3
  with assms show ?thesis
    by (cases v)
       (auto simp add: parse_option_size target_set_def stores_def has_mode_prefix_def Let_def
          split: if_splits sum.splits)
next
  case 4
  with assms show ?thesis
    by (auto simp add: parse_option_nlinks target_set_def stores_def split: if_splits sum.splits)
next
  case 5
  with assms show ?thesis
    by (auto simp add: parse_option_exec target_set_def stores_def split: if_splits)
next
  case 6
  with assms show ?thesis
    by (simp add: parse_option_unknown)
qed

lemma parse_option_set_fields:
  assumes "parse_option a v s = Inr s1"
  shows "(inode_target s \<noteq> 0 \<longrightarrow> inode_target s1 = inode_target s) \<and>
         (name_target s \<noteq> [] \<longrightarrow> name_target s1 = name_target s) \<and>
         (size_mode s \<noteq> NONE \<longrightarrow> size_mode s1 = size_mode s) \<and>
         (nlinks_target s \<noteq> 0 \<longrightarrow> nlinks_target s1 = nlinks_target s) \<and>
         (exec_target s \<noteq> [] \<longrightarrow> exec_target s1 = exec_target s)"
proof (cases a rule: flag_cases)
  case 1
  with assms show ?thesis
    by (cases "inode_target s = 0"; cases "stoul v") (auto simp add: parse_option_inum)
next
  case 2
  with assms show ?thesis
    by (cases "name_target s = []") (auto simp add: parse_option_name)
next
  case 3
  show ?thesis
  proof (cases "size_mode s = NONE")
    case True
    let ?c = "case v of [] \<Rightarrow> None | c # r \<Rightarrow> Some c"
    let ?s1 = "if ?c = Some CHR ''-'' then s\<lparr>size_mode := LESS\<rparr>
               else if ?c = Some CHR ''='' then s\<lparr>size_mode := EQUAL\<rparr>
               else if ?c = Some CHR ''+'' then s\<lparr>size_mode := GREATER\<rparr>
               else s"
    from assms 3 True obtain n where "s1 = ?s1\<lparr>size_target := n\<rparr>"
      by (simp add: parse_option_size Let_def split: sum.splits) blast
    with True show ?thesis by simp
  next
    case False
    with assms 3 show ?thesis by (simp add: parse_option_size)
  qed
next
  case 4
  with assms show ?thesis
    by (cases "nlinks_target s = 0"; cases "stoul v") (auto simp add: parse_option_nlinks)
next
  case 5
  with assms show ?thesis
    by (cases "exec_target s = []") (auto simp add: parse_option_exec)
next
  case 6
  with assms show ?thesis
    by (simp add: parse_option_unknown)
qed

lemma parse_option_keeps_set:
  assumes "parse_option a v s = Inr s1" and "target_set b s"
  shows "target_set b s1"
  using parse_option_set_fields [OF assms(1)] assms(2)
  unfolding target_set_def by metis

text \<open>How the loop of \<open>set_args\<close> at index \<open>i\<close> reads the rest of the command line.\<close>

lemma split_args_flag:
  assumes "i < length argv" and "is_flag (argv ! i)" and "\<not> length argv < i + 2"
  shows "split_args (drop i argv) = Opt (argv ! i) (argv ! (i + 1)) # split_args (drop (i + 2) argv)"
proof -
  from assms have "drop i argv = argv ! i # drop (Suc i) argv"
    and "drop (Suc i) argv = argv ! (i + 1) # drop (i + 2) argv"
    by (simp_all add: Cons_nth_drop_Suc)
  with assms(2) show ?thesis by simp
qed

lemma split_args_dir:
  assumes "i < length argv" and "\<not> is_flag (argv ! i)"
  shows "split_args (drop i argv) = Dir (argv ! i) # split_args (drop (i + 1) argv)"
proof -
  from assms have "drop i argv = argv ! i # drop (i + 1) argv"
    by (simp add: Cons_nth_drop_Suc)
  with assms(2) show ?thesis by (cases "drop (i + 1) argv") simp_all
qed

text \<open>
  Parsing touches only the criteria, the \<^verbatim>\<open>-exec\<close> target and \<^verbatim>\<open>cout\<close>; when it returns \<open>-1\<close>
  it has written a message.
\<close>

lemma parse_option_frame:
  assumes "parse_option a v s = r"
  shows "case r of
           Inl s1 \<Rightarrow> results s1 = results s \<and> fds s1 = fds s \<and> syscalls s1 = syscalls s \<and>
                     (\<exists>m. cout s1 = cout s @ m \<and> m \<noteq> [])
         | Inr s1 \<Rightarrow> results s1 = results s \<and> fds s1 = fds s \<and> syscalls s1 = syscalls s \<and>
                     cout s1 = cout s"
  using assms
  by (auto simp add: parse_option_def error_multiple_specified_def Let_def split: sum.splits if_splits)

lemma set_args_loop_frame:
  "set_args_loop argv i hasDir dirPosition s = (r, s') \<Longrightarrow>
     results s' = results s \<and> fds s' = fds s \<and> syscalls s' = syscalls s \<and>
     (\<exists>m. cout s' = cout s @ m \<and> (r = - 1 \<longrightarrow> (hasDir \<longrightarrow> dirPosition \<noteq> - 1) \<longrightarrow> m \<noteq> []))"
proof (induction argv i hasDir dirPosition s rule: set_args_loop.induct)
  case (1 argv i hasDir dirPosition s)
  note eq = set_args_loop.simps [of argv i hasDir dirPosition s]
  show ?case
  proof (cases "i < length argv")
    case False
    with "1.prems" eq show ?thesis by (auto split: if_splits)
  next
    case lt: True
    show ?thesis
    proof (cases "case argv ! i of [] \<Rightarrow> False | c # r \<Rightarrow> c = CHR ''-''")
      case False
      show ?thesis
      proof (cases hasDir)
        case True
        with "1.prems" eq lt False show ?thesis
          by (auto simp add: error_multiple_specified_def)
      next
        case nd: False
        with "1.prems" eq lt False have "set_args_loop argv (i + 1) True (int i) s = (r, s')"
          by simp
        from "1.IH"(2) [OF lt False nd this] nd show ?thesis by auto
      qed
    next
      case flag: True
      show ?thesis
      proof (cases "length argv < i + 2")
        case True
        with "1.prems" eq lt flag show ?thesis by auto
      next
        case enough: False
        show ?thesis
        proof (cases "parse_option (argv ! i) (argv ! (i + 1)) s")
          case (Inl s1)
          with "1.prems" eq lt flag enough have "r = - 1" "s' = s1" by simp_all
          with parse_option_frame [OF Inl] show ?thesis by auto
        next
          case (Inr s1)
          with "1.prems" eq lt flag enough
          have "set_args_loop argv (i + 2) hasDir dirPosition s1 = (r, s')" by simp
          from "1.IH"(1) [OF lt flag enough Inr this] parse_option_frame [OF Inr]
          show ?thesis by auto
        qed
      qed
    qed
  qed
qed

lemma set_args_frame:
  assumes "set_args argv initial_state = (r, s')"
  shows "results s' = [] \<and> fds s' = [0, 1, 2] \<and> syscalls s' = [] \<and> (r = - 1 \<longrightarrow> cout s' \<noteq> [])"
  using set_args_loop_frame [of argv 1 False 0 initial_state r s'] assms
  by (auto simp add: set_args_def initial_state_def)

section \<open>The paths in the ResultSet (C3)\<close>

text \<open>
  C3 says that the paths in the ResultSet are relative to the root: the relative
  directory prefix plus the file name, with no leading root path, and not absolute.
  They are not. For \<^verbatim>\<open>os-find /tmp\<close>, with \<^verbatim>\<open>/tmp\<close> holding the regular file \<^verbatim>\<open>a\<close>, the
  ResultSet is \<^verbatim>\<open>/tmp/a\<close>, where the path of the file relative to the root is \<^verbatim>\<open>a\<close>:
  \<open>main\<close> starts the walk with the root argument as path prefix.
\<close>

theorem results_keep_root_counterexample:
  "main_results tmp_kernel [''os-find'', ''/tmp''] = Some [''/tmp/a''] \<and>
   found (criteria initial_state) [] tmp_stream = [''a'']"
  by (simp add: main_results_def main_def set_args_def set_args_loop.simps tmp_kernel_def
        tmp_stream_def initial_state_def lowest_fd_def matches_def found_def satisfies_def
        criteria_def Let_def DT_REG_def DT_DIR_def)

text \<open>
  C3, amended. Every path in the ResultSet is the root directory as given on the
  command line, followed by \<^verbatim>\<open>/\<close> unless it ends in one, followed by the path of the
  file relative to the root (the relative directory prefix plus the file name). So
  a path is absolute exactly when the root argument is. This is stated for a
  command line that parses, a root that opens, and a kernel whose failures carry
  POSIX error numbers; then \<open>main\<close> gets as far as the dispatch.
\<close>

theorem results_are_root_then_relative:
  assumes "set_args argv initial_state = (dirPosition, s0)" and "dirPosition \<noteq> - 1"
    and "argv ! nat dirPosition = arg" and "arg \<noteq> []"
    and "open_root k arg = Ret stream" and "posix_stream stream"
    and "\<forall>file args. execv_fails k file args \<noteq> Some 0"
  shows "main_results k argv =
           Some (map ((@) (if last arg \<noteq> CHR ''/'' then arg @ ''/'' else arg))
                   (found (criteria s0) [] stream))"
proof -
  let ?root = "if last arg \<noteq> CHR ''/'' then arg @ ''/'' else arg"
  let ?s1 = "s0\<lparr>syscalls := syscalls s0 @ [Sys_open arg]\<rparr>"
  let ?fd = "lowest_fd (fds ?s1)"
  from visit_results_aux(1)
         [where stream = stream and dir_fd = ?fd and path = ?root
            and s = "?s1\<lparr>fds := fds ?s1 @ [?fd]\<rparr>"] assms(6)
  obtain s2 where
    v: "visit ?fd ?root stream (?s1\<lparr>fds := fds ?s1 @ [?fd]\<rparr>) = Inr s2"
       "results s2 = results s0 @ found (criteria s0) ?root stream"
    by (auto split: sum.splits)
  have "results s0 = []"
    using set_args_frame [OF assms(1)] by simp
  with v(2) have r2: "results s2 = map ((@) ?root) (found (criteria s0) [] stream)"
    using found_prefix [of "criteria s0" ?root stream] by simp
  let ?s3 = "s2\<lparr>fds := removeAll ?fd (fds s2), syscalls := syscalls s2 @ [Sys_close ?fd]\<rparr>"
  let ?c_results = "exec_target ?s3 # results ?s3"
  let ?s4 = "?s3\<lparr>syscalls := syscalls ?s3 @ [Sys_execv (exec_target ?s3) ?c_results]\<rparr>"
  show ?thesis
  proof (cases "exec_target ?s3 = []")
    case True
    with assms(1-5) v(1) r2 show ?thesis
      by (simp add: main_results_def main_def Let_def)
  next
    case False
    show ?thesis
    proof (cases "execv_fails k (exec_target ?s3) ?c_results")
      case None
      with assms(1-5) v(1) r2 False show ?thesis
        by (simp add: main_results_def main_def Let_def)
    next
      case (Some errno)
      with assms(7) have "errno \<noteq> 0" by metis
      with assms(1-5) v(1) r2 False Some show ?thesis
        by (simp add: main_results_def main_def Let_def print_error_ok)
    qed
  qed
qed

text \<open>The roots \<^verbatim>\<open>/tmp\<close>, absolute and without a final slash, and \<^verbatim>\<open>./\<close>, relative and with one.\<close>

theorem results_are_root_then_relative_witness:
  "main_results tmp_kernel [''os-find'', ''/tmp''] = Some [''/tmp/a''] \<and>
   main_results tmp_kernel [''os-find'', ''-name'', ''a'', ''./''] = Some [''./a'']"
proof -
  have 1: "set_args [''os-find'', ''/tmp''] initial_state = (1, initial_state)"
    by (simp add: set_args_def set_args_loop.simps)
  have 2: "set_args [''os-find'', ''-name'', ''a'', ''./''] initial_state =
       (3, initial_state\<lparr>name_target := ''a''\<rparr>)"
    by (simp add: set_args_def set_args_loop.simps parse_option_def initial_state_def)
  have p: "posix_stream tmp_stream"
    by (simp add: tmp_stream_def posix_file_def)
  have e: "\<forall>file args. execv_fails tmp_kernel file args \<noteq> Some 0"
    by (simp add: tmp_kernel_def)
  have o: "open_root tmp_kernel arg = Ret tmp_stream" for arg
    by (simp add: tmp_kernel_def)
  show ?thesis
    using results_are_root_then_relative [OF 1 _ refl _ o p e]
      results_are_root_then_relative [OF 2 _ refl _ o p e]
    by (simp add: found_def tmp_stream_def satisfies_def criteria_def initial_state_def
          DT_REG_def DT_DIR_def)
qed

section \<open>Rejected command lines (C9)\<close>

text \<open>
  The loop returns \<open>-1\<close> when what is left of the command line holds an unknown flag,
  or no directory while none was seen before, or a flag repeated after it stored a
  set value, or a flag whose variable is set already.
\<close>

lemma set_args_loop_rejects:
  "list_ex unknown_flag (split_args (drop i argv)) \<or>
   (\<not> hasDir \<and> \<not> list_ex is_dir (split_args (drop i argv))) \<or>
   repeated_after_set (split_args (drop i argv)) \<or>
   (\<exists>b \<in> set (option_names (split_args (drop i argv))). target_set b s) \<Longrightarrow>
   fst (set_args_loop argv i hasDir dirPosition s) = - 1"
proof (induction argv i hasDir dirPosition s rule: set_args_loop.induct)
  case (1 argv i hasDir dirPosition s)
  note eq = set_args_loop.simps [of argv i hasDir dirPosition s]
  note bad = "1.prems"
  show ?case
  proof (cases "i < length argv")
    case False
    with bad have "\<not> hasDir" by simp
    with False eq show ?thesis by simp
  next
    case lt: True
    show ?thesis
    proof (cases "is_flag (argv ! i)")
      case False
      then have nf: "\<not> (case argv ! i of [] \<Rightarrow> False | c # r \<Rightarrow> c = CHR ''-'')"
        by (simp add: is_flag_def)
      note sp = split_args_dir [OF lt False]
      show ?thesis
      proof (cases hasDir)
        case True
        with eq lt nf show ?thesis by simp
      next
        case nd: False
        from bad sp have
          "list_ex unknown_flag (split_args (drop (i + 1) argv)) \<or>
           (\<not> True \<and> \<not> list_ex is_dir (split_args (drop (i + 1) argv))) \<or>
           repeated_after_set (split_args (drop (i + 1) argv)) \<or>
           (\<exists>b \<in> set (option_names (split_args (drop (i + 1) argv))). target_set b s)"
          by simp
        from "1.IH"(2) [OF lt nf nd this] eq lt nf nd show ?thesis by simp
      qed
    next
      case flag: True
      then have f: "case argv ! i of [] \<Rightarrow> False | c # r \<Rightarrow> c = CHR ''-''"
        by (simp add: is_flag_def)
      show ?thesis
      proof (cases "length argv < i + 2")
        case True
        with eq lt f show ?thesis by simp
      next
        case enough: False
        note sp = split_args_flag [OF lt flag enough]
        show ?thesis
        proof (cases "parse_option (argv ! i) (argv ! (i + 1)) s")
          case (Inl s1)
          with eq lt f enough show ?thesis by simp
        next
          case (Inr s1)
          have known: "argv ! i \<in> set known_flags"
            using Inr parse_option_unknown [of "argv ! i" "argv ! (i + 1)" s] by auto
          have unset: "\<not> target_set (argv ! i) s"
            using Inr parse_option_target_set [of "argv ! i" s "argv ! (i + 1)"] by auto
          let ?rest = "split_args (drop (i + 2) argv)"
          from bad sp have
            "list_ex unknown_flag ?rest \<or>
             (\<not> hasDir \<and> \<not> list_ex is_dir ?rest) \<or>
             repeated_after_set ?rest \<or>
             (\<exists>b \<in> set (option_names ?rest). target_set b s1)"
          proof (elim disjE)
            assume "list_ex unknown_flag (split_args (drop i argv))"
            with sp known show ?thesis by simp
          next
            assume "\<not> hasDir \<and> \<not> list_ex is_dir (split_args (drop i argv))"
            with sp show ?thesis by simp
          next
            assume "repeated_after_set (split_args (drop i argv))"
            with sp have "stores (argv ! i) (argv ! (i + 1)) \<and> argv ! i \<in> set (option_names ?rest) \<or>
                repeated_after_set ?rest"
              by simp
            then show ?thesis
              using parse_option_stores [OF Inr] by blast
          next
            assume "\<exists>b \<in> set (option_names (split_args (drop i argv))). target_set b s"
            with sp unset obtain b where "b \<in> set (option_names ?rest)" "target_set b s"
              by auto
            then show ?thesis
              using parse_option_keeps_set [OF Inr] by blast
          qed
          from "1.IH"(1) [OF lt f enough Inr this] eq lt f enough Inr show ?thesis by simp
        qed
      qed
    qed
  qed
qed

text \<open>
  A command line that holds an unknown flag where an option is expected, or a flag
  repeated after an occurrence whose value is not the initial one again (for
  \<^verbatim>\<open>-inum\<close> and \<^verbatim>\<open>-nlinks\<close> anything but the number 0, for \<^verbatim>\<open>-name\<close> and \<^verbatim>\<open>-exec\<close> a non-empty
  string, for \<^verbatim>\<open>-size\<close> a value with a mode prefix), or no directory argument, is
  refused: the program prints a message and returns 0 without invoking the walker;
  no system call is made, no descriptor opened, and the ResultSet stays empty.
\<close>

lemma rejected_command_lines:
  assumes "bad_command_line (split_args (drop 1 argv))"
  shows "\<exists>s. main k argv = Inr (Returned 0, s) \<and> cout s \<noteq> [] \<and> results s = [] \<and>
           syscalls s = [] \<and> fds s = [0, 1, 2]"
proof -
  obtain r s where rs: "set_args argv initial_state = (r, s)"
    by (cases "set_args argv initial_state")
  from assms have
    "list_ex unknown_flag (split_args (drop 1 argv)) \<or>
     (\<not> False \<and> \<not> list_ex is_dir (split_args (drop 1 argv))) \<or>
     repeated_after_set (split_args (drop 1 argv)) \<or>
     (\<exists>b \<in> set (option_names (split_args (drop 1 argv))). target_set b initial_state)"
    by (auto simp add: bad_command_line_def)
  from set_args_loop_rejects [OF this, of 0] rs have r: "r = - 1"
    by (simp add: set_args_def)
  with set_args_frame [OF rs] have
    "main k argv = Inr (Returned 0, s) \<and> cout s \<noteq> [] \<and> results s = [] \<and>
       syscalls s = [] \<and> fds s = [0, 1, 2]"
    using rs by (simp add: main_def)
  then show ?thesis by (rule exI)
qed

text \<open>An unknown flag, the flag \<^verbatim>\<open>-name\<close> given twice, and a command line without directory.\<close>

lemma rejected_command_lines_examples:
  "main tmp_kernel [''os-find'', ''-bogus'', ''x'', ''/tmp''] =
     Inr (Returned 0,
          initial_state\<lparr>cout := [Text ''Unknown option used: '', Text ''-bogus'', Endl]\<rparr>) \<and>
   main tmp_kernel [''os-find'', ''-name'', ''a'', ''-name'', ''b'', ''/tmp''] =
     Inr (Returned 0,
          initial_state\<lparr>name_target := ''a'',
            cout := [Text ''Only one '', Text ''file name'', Text '' can be specified'', Endl]\<rparr>) \<and>
   main tmp_kernel [''os-find'', ''-name'', ''a''] =
     Inr (Returned 0,
          initial_state\<lparr>name_target := ''a'',
            cout := [Text ''Usage: os-find [OPTIONS] DIRECTORY'', Endl]\<rparr>)"
proof -
  have 1: "bad_command_line (split_args (drop 1 [''os-find'', ''-bogus'', ''x'', ''/tmp'']))"
    by (simp add: bad_command_line_def is_flag_def known_flags_def)
  have 2: "bad_command_line (split_args (drop 1
             [''os-find'', ''-name'', ''a'', ''-name'', ''b'', ''/tmp'']))"
    by (simp add: bad_command_line_def is_flag_def stores_def)
  have 3: "bad_command_line (split_args (drop 1 [''os-find'', ''-name'', ''a'']))"
    by (simp add: bad_command_line_def is_flag_def known_flags_def)
  show ?thesis
    using rejected_command_lines [OF 1, of tmp_kernel]
      rejected_command_lines [OF 2, of tmp_kernel]
      rejected_command_lines [OF 3, of tmp_kernel]
    by (simp add: main_def set_args_def set_args_loop.simps parse_option_def
          error_multiple_specified_def initial_state_def)
qed

text \<open>
  C9. Every command line that holds an unknown flag, a duplicate occurrence of the
  same flag, or no directory argument should end in a message and a clean exit
  without the walker being run, the ResultSet staying empty. For a duplicate flag
  the program does not keep to this. \<^verbatim>\<open>set_args\<close> means to refuse a repeated flag, and
  has a guard and a message for each one, but the guard asks whether the variable
  of the flag differs from its initial value, and a first occurrence whose value
  is the initial one again leaves nothing to see. \<^verbatim>\<open>os-find -inum 0 -inum 5 /tmp\<close>
  holds \<^verbatim>\<open>-inum\<close> twice, yet no message is printed, \<^verbatim>\<open>/tmp\<close> is walked and the file with
  inode 5 is found; the same two options in the other order,
  \<^verbatim>\<open>os-find -inum 5 -inum 0 /tmp\<close>, are refused with the message for a repeated inode
  number, before any system call.
\<close>

theorem repeated_flag_accepted:
  "\<not> distinct (option_names (split_args (drop 1
       [''os-find'', ''-inum'', ''0'', ''-inum'', ''5'', ''/tmp'']))) \<and>
   main tmp_kernel [''os-find'', ''-inum'', ''0'', ''-inum'', ''5'', ''/tmp''] =
     Inr (Returned 0,
          initial_state
            \<lparr>inode_target := 5, results := [''/tmp/a''], cout := [Text ''/tmp/a'', Endl],
             syscalls := [Sys_open ''/tmp'', Sys_getdents64 3, Sys_getdents64 3, Sys_close 3]\<rparr>) \<and>
   main tmp_kernel [''os-find'', ''-inum'', ''5'', ''-inum'', ''0'', ''/tmp''] =
     Inr (Returned 0,
          initial_state
            \<lparr>inode_target := 5,
             cout := [Text ''Only one '', Text ''inode number'', Text '' can be specified'',
                      Endl]\<rparr>)"
proof -
  have 0: "stoul ''0'' = Inr 0" and 5: "stoul ''5'' = Inr 5"
    by (simp_all add: stoul_def scan_integer_def isspace_def isdigit_def digits_value_def)
  have "set_args [''os-find'', ''-inum'', ''0'', ''-inum'', ''5'', ''/tmp''] initial_state =
      (5, initial_state\<lparr>inode_target := 5\<rparr>)"
    by (simp add: set_args_def set_args_loop.simps parse_option_def 0 5 initial_state_def)
  moreover
  have "set_args [''os-find'', ''-inum'', ''5'', ''-inum'', ''0'', ''/tmp''] initial_state =
      (- 1, initial_state\<lparr>inode_target := 5,
              cout := [Text ''Only one '', Text ''inode number'', Text '' can be specified'',
                       Endl]\<rparr>)"
    by (simp add: set_args_def set_args_loop.simps parse_option_def 0 5 initial_state_def
          error_multiple_specified_def)
  ultimately show ?thesis
    by (simp add: main_def tmp_kernel_def tmp_stream_def initial_state_def lowest_fd_def
          matches_def is_flag_def Let_def DT_REG_def DT_DIR_def)
qed

section \<open>A size without a mode prefix (C10)\<close>























end
